theory Spec2Isabelle
  imports Main "HOL-Library.Word"
begin

unbundle bit_operations_syntax

section \<open>Configuration constants and bit intrinsics\<close>

text \<open>
  The bitmap of \<^verbatim>\<open>src/bitmap.c\<close> is embedded for sequential executions: every atomic
  read-modify-write acts on the value it has just loaded, so a compare-and-swap loop
  succeeds on its first round.  Out parameters are returned as further components of the
  result; a pointer that callers may pass as \<^verbatim>\<open>NULL\<close> is a component the caller drops.
  Debug assertions (\<^verbatim>\<open>mi_assert_internal\<close>) are not executed; where a claim is about
  them they are modelled as predicates.  Array accesses \<^verbatim>\<open>bfields[i]\<close> and
  \<^verbatim>\<open>chunks[i]\<close> are list accesses and are meaningful in range only, which the theorems
  assume wherever the source asserts it.
\<close>

type_synonym mi_bfield_t = "64 word"

text \<open>Modelled from the spec: the widths declared in \<^verbatim>\<open>bitmap.h\<close> (not part of the
  sources at hand), in the configuration of the spec's concrete scenarios:
  \<open>W = 64\<close> bits per bfield, \<open>F = 8\<close> bfields per chunk, \<open>B = 512\<close> bits per chunk.\<close>

definition MI_BFIELD_BITS :: nat where
  "MI_BFIELD_BITS = 64"

definition MI_BCHUNK_FIELDS :: nat where
  "MI_BCHUNK_FIELDS = 8"

definition MI_BCHUNK_BITS :: nat where
  "MI_BCHUNK_BITS = 512"

text \<open>Modelled from the spec: \<^verbatim>\<open>MI_BFIELD_LO_BIT8\<close> and \<^verbatim>\<open>MI_BFIELD_HI_BIT8\<close>, the
  constants \<open>0x0101\<dots>\<close> and \<open>0x8080\<dots>\<close> of the byte detection trick.\<close>

definition MI_BFIELD_LO_BIT8 :: mi_bfield_t where
  "MI_BFIELD_LO_BIT8 = 0x0101010101010101"

definition MI_BFIELD_HI_BIT8 :: mi_bfield_t where
  "MI_BFIELD_HI_BIT8 = 0x8080808080808080"

text \<open>Modelled from the spec: the bit intrinsics of \<^verbatim>\<open>mimalloc/bits.h\<close> (count trailing
  zeros, population count, bit scan forward and reverse, rounding division).  A scan of the
  zero word finds nothing and leaves its out parameter undefined: the result is \<open>None\<close>.\<close>

definition mi_ctz :: "mi_bfield_t \<Rightarrow> nat" where
  "mi_ctz x = length (takeWhile (\<lambda>n. \<not> bit x n) [0..<64])"

definition mi_popcount :: "mi_bfield_t \<Rightarrow> nat" where
  "mi_popcount x = length (filter (bit x) [0..<64])"

definition mi_bsf :: "mi_bfield_t \<Rightarrow> nat option" where
  "mi_bsf x = (if x = 0 then None else Some (mi_ctz x))"

definition mi_bsr :: "mi_bfield_t \<Rightarrow> nat option" where
  "mi_bsr x = (if x = 0 then None
               else Some (63 - length (takeWhile (\<lambda>n. \<not> bit x n) (rev [0..<64]))))"

definition mi_divide_up :: "nat \<Rightarrow> nat \<Rightarrow> nat" where
  "mi_divide_up n d = (n + d - 1) div d"

section \<open>bfields\<close>

definition mi_bfield_ctz :: "mi_bfield_t \<Rightarrow> nat" where
  "mi_bfield_ctz x = mi_ctz x"

definition mi_bfield_popcount :: "mi_bfield_t \<Rightarrow> nat" where
  "mi_bfield_popcount x = mi_popcount x"

definition mi_bfield_clear_least_bit :: "mi_bfield_t \<Rightarrow> mi_bfield_t" where
  "mi_bfield_clear_least_bit x = x AND (x - 1)"

definition mi_bfield_find_least_bit :: "mi_bfield_t \<Rightarrow> nat option" where
  "mi_bfield_find_least_bit x = mi_bsf x"

definition mi_bfield_zero :: mi_bfield_t where
  "mi_bfield_zero = 0"

definition mi_bfield_one :: mi_bfield_t where
  "mi_bfield_one = 1"

definition mi_bfield_all_set :: mi_bfield_t where
  "mi_bfield_all_set = NOT 0"

definition mi_bfield_mask :: "nat \<Rightarrow> nat \<Rightarrow> mi_bfield_t" where
  "mi_bfield_mask bit_count shiftl =
     (let mask0 = (if bit_count < MI_BFIELD_BITS
                   then push_bit bit_count mi_bfield_one - 1
                   else mi_bfield_all_set)
      in push_bit shiftl mask0)"

text \<open>Each atomic operation takes the current word and returns the function result, the
  new word, and the value of its out parameter if it has one.\<close>

definition mi_bfield_atomic_set :: "mi_bfield_t \<Rightarrow> nat \<Rightarrow> bool \<times> mi_bfield_t" where
  "mi_bfield_atomic_set b idx =
     (let msk = push_bit idx mi_bfield_one; old = b
      in ((old AND msk) = 0, old OR msk))"

definition mi_bfield_atomic_clear :: "mi_bfield_t \<Rightarrow> nat \<Rightarrow> bool \<times> mi_bfield_t \<times> bool" where
  "mi_bfield_atomic_clear b idx =
     (let msk = push_bit idx mi_bfield_one; old = b
      in ((old AND msk) = msk, old AND NOT msk, (old AND NOT msk) = 0))"

definition mi_bfield_atomic_set_mask ::
  "mi_bfield_t \<Rightarrow> mi_bfield_t \<Rightarrow> bool \<times> mi_bfield_t \<times> nat" where
  "mi_bfield_atomic_set_mask b msk =
     (let old = b
      in ((old AND msk) = 0, old OR msk, mi_bfield_popcount (old AND msk)))"

definition mi_bfield_atomic_clear_mask ::
  "mi_bfield_t \<Rightarrow> mi_bfield_t \<Rightarrow> bool \<times> mi_bfield_t \<times> nat" where
  "mi_bfield_atomic_clear_mask b msk =
     (let old = b
      in ((old AND msk) = msk, old AND NOT msk, mi_bfield_popcount (NOT (old AND msk))))"

definition mi_bfield_atomic_xset_mask ::
  "bool \<Rightarrow> mi_bfield_t \<Rightarrow> mi_bfield_t \<Rightarrow> bool \<times> mi_bfield_t \<times> nat" where
  "mi_bfield_atomic_xset_mask is_set b msk =
     (if is_set then mi_bfield_atomic_set_mask b msk
      else mi_bfield_atomic_clear_mask b msk)"

definition mi_bfield_atomic_set8 :: "mi_bfield_t \<Rightarrow> nat \<Rightarrow> bool \<times> mi_bfield_t" where
  "mi_bfield_atomic_set8 b byte_idx =
     (let msk = push_bit (byte_idx * 8) (0xFF :: mi_bfield_t);
          (r, b', _) = mi_bfield_atomic_xset_mask True b msk
      in (r, b'))"

definition mi_bfield_atomic_clear8 :: "mi_bfield_t \<Rightarrow> nat \<Rightarrow> bool \<times> mi_bfield_t \<times> bool" where
  "mi_bfield_atomic_clear8 b byte_idx =
     (let msk = push_bit (byte_idx * 8) (0xFF :: mi_bfield_t); old = b
      in ((old AND msk) = msk, old AND NOT msk, (old AND NOT msk) = 0))"

definition mi_bfield_atomic_setX :: "mi_bfield_t \<Rightarrow> bool \<times> mi_bfield_t" where
  "mi_bfield_atomic_setX b = (let old = b in (old = 0, mi_bfield_all_set))"

definition mi_bfield_atomic_clearX :: "mi_bfield_t \<Rightarrow> bool \<times> mi_bfield_t" where
  "mi_bfield_atomic_clearX b = (let old = b in (NOT old = 0, mi_bfield_zero))"

definition mi_bfield_atomic_try_set_mask :: "mi_bfield_t \<Rightarrow> mi_bfield_t \<Rightarrow> bool \<times> mi_bfield_t" where
  "mi_bfield_atomic_try_set_mask b msk =
     (let old = b
      in if (old AND msk) \<noteq> 0 then (False, b) else (True, old OR msk))"

definition mi_bfield_atomic_try_clear_mask ::
  "mi_bfield_t \<Rightarrow> mi_bfield_t \<Rightarrow> bool \<times> mi_bfield_t \<times> bool" where
  "mi_bfield_atomic_try_clear_mask b msk =
     (let old = b
      in if (old AND msk) \<noteq> msk then (False, b, old = 0)
         else (True, old AND NOT msk, (old AND NOT msk) = 0))"

definition mi_bfield_atomic_try_clear :: "mi_bfield_t \<Rightarrow> nat \<Rightarrow> bool \<times> mi_bfield_t \<times> bool" where
  "mi_bfield_atomic_try_clear b idx =
     (let msk = push_bit idx mi_bfield_one
      in mi_bfield_atomic_try_clear_mask b msk)"

definition mi_bfield_atomic_try_xset_mask ::
  "bool \<Rightarrow> mi_bfield_t \<Rightarrow> mi_bfield_t \<Rightarrow> bool \<times> mi_bfield_t \<times> bool" where
  "mi_bfield_atomic_try_xset_mask is_set b msk =
     (if is_set
      then (let (r, b') = mi_bfield_atomic_try_set_mask b msk in (r, b', False))
      else mi_bfield_atomic_try_clear_mask b msk)"

definition mi_bfield_atomic_try_clear8 :: "mi_bfield_t \<Rightarrow> nat \<Rightarrow> bool \<times> mi_bfield_t \<times> bool" where
  "mi_bfield_atomic_try_clear8 b byte_idx =
     (let msk = push_bit (byte_idx * 8) (0xFF :: mi_bfield_t)
      in mi_bfield_atomic_try_clear_mask b msk)"

definition mi_bfield_atomic_try_clearX :: "mi_bfield_t \<Rightarrow> bool \<times> mi_bfield_t" where
  "mi_bfield_atomic_try_clearX b =
     (if b = mi_bfield_all_set then (True, mi_bfield_zero) else (False, b))"

definition mi_bfield_atomic_is_set_mask :: "mi_bfield_t \<Rightarrow> mi_bfield_t \<Rightarrow> bool" where
  "mi_bfield_atomic_is_set_mask b msk = ((b AND msk) = msk)"

definition mi_bfield_atomic_is_clear_mask :: "mi_bfield_t \<Rightarrow> mi_bfield_t \<Rightarrow> bool" where
  "mi_bfield_atomic_is_clear_mask b msk = ((b AND msk) = 0)"

definition mi_bfield_atomic_is_xset_mask :: "bool \<Rightarrow> mi_bfield_t \<Rightarrow> mi_bfield_t \<Rightarrow> bool" where
  "mi_bfield_atomic_is_xset_mask is_set b msk =
     (if is_set then mi_bfield_atomic_is_set_mask b msk
      else mi_bfield_atomic_is_clear_mask b msk)"

section \<open>bchunks\<close>

text \<open>A chunk is the array \<^verbatim>\<open>bfields[MI_BCHUNK_FIELDS]\<close> of the struct \<^verbatim>\<open>mi_bchunk_t\<close>,
  which has no other member.\<close>

type_synonym mi_bchunk_t = "mi_bfield_t list"

definition mi_bchunk_set :: "mi_bchunk_t \<Rightarrow> nat \<Rightarrow> bool \<times> mi_bchunk_t" where
  "mi_bchunk_set chunk cidx =
     (let i = cidx div MI_BFIELD_BITS; idx = cidx mod MI_BFIELD_BITS;
          (r, b') = mi_bfield_atomic_set (chunk ! i) idx
      in (r, chunk[i := b']))"

definition mi_bchunk_clear :: "mi_bchunk_t \<Rightarrow> nat \<Rightarrow> bool \<times> mi_bchunk_t \<times> bool" where
  "mi_bchunk_clear chunk cidx =
     (let i = cidx div MI_BFIELD_BITS; idx = cidx mod MI_BFIELD_BITS;
          (r, b', maybe_all_clear) = mi_bfield_atomic_clear (chunk ! i) idx
      in (r, chunk[i := b'], maybe_all_clear))"

text \<open>\<^verbatim>\<open>MI_BFIELD_SIZE\<close> is the number of bytes of a bfield, \<open>MI_BFIELD_BITS / 8\<close>.\<close>

definition MI_BFIELD_SIZE :: nat where
  "MI_BFIELD_SIZE = MI_BFIELD_BITS div 8"

definition mi_bchunk_set8 :: "mi_bchunk_t \<Rightarrow> nat \<Rightarrow> bool \<times> mi_bchunk_t" where
  "mi_bchunk_set8 chunk byte_idx =
     (let i = byte_idx div MI_BFIELD_SIZE; bidx = byte_idx mod MI_BFIELD_SIZE;
          (r, b') = mi_bfield_atomic_set8 (chunk ! i) bidx
      in (r, chunk[i := b']))"

definition mi_bchunk_clear8 :: "mi_bchunk_t \<Rightarrow> nat \<Rightarrow> bool \<times> mi_bchunk_t \<times> bool" where
  "mi_bchunk_clear8 chunk byte_idx =
     (let i = byte_idx div MI_BFIELD_SIZE; bidx = byte_idx mod MI_BFIELD_SIZE;
          (r, b', maybe_all_clear) = mi_bfield_atomic_clear8 (chunk ! i) bidx
      in (r, chunk[i := b'], maybe_all_clear))"

definition mi_bchunk_setX :: "mi_bchunk_t \<Rightarrow> nat \<Rightarrow> bool \<times> mi_bchunk_t" where
  "mi_bchunk_setX chunk field_idx =
     (let (r, b') = mi_bfield_atomic_setX (chunk ! field_idx)
      in (r, chunk[field_idx := b']))"

definition mi_bchunk_clearX :: "mi_bchunk_t \<Rightarrow> nat \<Rightarrow> bool \<times> mi_bchunk_t \<times> bool" where
  "mi_bchunk_clearX chunk field_idx =
     (let (r, b') = mi_bfield_atomic_clearX (chunk ! field_idx)
      in (r, chunk[field_idx := b'], True))"

text \<open>The loop of \<^verbatim>\<open>mi_bchunk_xsetN\<close>; its state is the chunk, \<open>idx\<close>, \<open>field\<close>, \<open>n\<close>,
  \<open>all_transition\<close> and \<open>total_already_xset\<close>.  In the source \<open>idx\<close> is
  \<open>cidx % MI_BFIELD_BITS\<close> or 0, so \<open>MI_BFIELD_BITS - idx\<close> is positive.\<close>

function mi_bchunk_xsetN_loop ::
  "bool \<Rightarrow> mi_bchunk_t \<Rightarrow> nat \<Rightarrow> nat \<Rightarrow> nat \<Rightarrow> bool \<Rightarrow> nat \<Rightarrow> bool \<times> mi_bchunk_t \<times> nat" where
  "mi_bchunk_xsetN_loop is_set chunk idx field n all_transition total_already_xset =
     (if n > 0 then
        (let m0 = MI_BFIELD_BITS - idx;
             m = (if m0 > n then n else m0);
             msk = mi_bfield_mask m idx;
             (transition, b', already_xset) = mi_bfield_atomic_xset_mask is_set (chunk ! field) msk
         in mi_bchunk_xsetN_loop is_set (chunk[field := b']) 0 (field + 1) (n - m)
              (all_transition \<and> transition) (total_already_xset + already_xset))
      else (all_transition, chunk, total_already_xset))"
  by pat_completeness auto
termination
  by (relation "measure (\<lambda>(is_set, chunk, idx, field, n, a, t).
                   2 * n + (if idx \<ge> MI_BFIELD_BITS then 1 else 0))")
     (auto simp: MI_BFIELD_BITS_def)

declare mi_bchunk_xsetN_loop.simps [simp del]

definition mi_bchunk_xsetN :: "bool \<Rightarrow> mi_bchunk_t \<Rightarrow> nat \<Rightarrow> nat \<Rightarrow> bool \<times> mi_bchunk_t \<times> nat" where
  "mi_bchunk_xsetN is_set chunk cidx n =
     mi_bchunk_xsetN_loop is_set chunk (cidx mod MI_BFIELD_BITS) (cidx div MI_BFIELD_BITS) n True 0"

definition mi_bchunk_setN :: "mi_bchunk_t \<Rightarrow> nat \<Rightarrow> nat \<Rightarrow> bool \<times> mi_bchunk_t \<times> nat" where
  "mi_bchunk_setN chunk cidx n = mi_bchunk_xsetN True chunk cidx n"

definition mi_bchunk_clearN :: "mi_bchunk_t \<Rightarrow> nat \<Rightarrow> nat \<Rightarrow> bool \<times> mi_bchunk_t \<times> nat" where
  "mi_bchunk_clearN chunk cidx n = mi_bchunk_xsetN False chunk cidx n"

subsection \<open>The all-or-nothing ranged operation\<close>

text \<open>The loop over the mid fields of \<^verbatim>\<open>mi_bchunk_try_xsetN\<close>.  Its result is the flag
  "no field failed" (\<open>False\<close> is the \<^verbatim>\<open>goto restore\<close>), the chunk, and the variables
  \<open>field\<close>, \<open>n\<close>, \<open>mask_mid\<close> and \<open>maybe_all_clear\<close> at that point.\<close>

function mi_bchunk_try_xsetN_mid ::
  "bool \<Rightarrow> mi_bchunk_t \<Rightarrow> nat \<Rightarrow> nat \<Rightarrow> mi_bfield_t \<Rightarrow> bool
     \<Rightarrow> bool \<times> mi_bchunk_t \<times> nat \<times> nat \<times> mi_bfield_t \<times> bool" where
  "mi_bchunk_try_xsetN_mid is_set chunk field n mask_mid maybe_all_clear =
     (if n \<ge> MI_BFIELD_BITS then
        (let field1 = field + 1;
             mask_mid1 = mi_bfield_all_set;
             (ok, b', field_is_clear) = mi_bfield_atomic_try_xset_mask is_set (chunk ! field1) mask_mid1
         in if \<not> ok then (False, chunk[field1 := b'], field1, n, mask_mid1, maybe_all_clear)
            else mi_bchunk_try_xsetN_mid is_set (chunk[field1 := b']) field1 (n - MI_BFIELD_BITS)
                   mask_mid1 (maybe_all_clear \<and> field_is_clear))
      else (True, chunk, field, n, mask_mid, maybe_all_clear))"
  by pat_completeness auto
termination
  by (relation "measure (\<lambda>(is_set, chunk, field, n, mm, mac). n)")
     (auto simp: MI_BFIELD_BITS_def)

declare mi_bchunk_try_xsetN_mid.simps [simp del]

text \<open>The loop after the label \<^verbatim>\<open>restore\<close>: the fields below the one that failed are put
  back with the inverse operation, from the highest down to \<open>start_field\<close>.\<close>

function mi_bchunk_try_xsetN_restore ::
  "bool \<Rightarrow> mi_bchunk_t \<Rightarrow> nat \<Rightarrow> nat \<Rightarrow> nat \<Rightarrow> mi_bfield_t \<Rightarrow> mi_bfield_t \<Rightarrow> mi_bfield_t
     \<Rightarrow> mi_bchunk_t" where
  "mi_bchunk_try_xsetN_restore is_set chunk field start_field end_field mask_start mask_mid mask_end =
     (if field > start_field then
        (let field1 = field - 1;
             msk = (if field1 = start_field then mask_start
                    else if field1 = end_field then mask_end else mask_mid);
             (_, b', _) = mi_bfield_atomic_xset_mask (\<not> is_set) (chunk ! field1) msk
         in mi_bchunk_try_xsetN_restore is_set (chunk[field1 := b']) field1 start_field end_field
              mask_start mask_mid mask_end)
      else chunk)"
  by pat_completeness auto
termination
  by (relation "measure (\<lambda>(is_set, chunk, field, sf, ef, ms, mm, me). field)") auto

declare mi_bchunk_try_xsetN_restore.simps [simp del]

text \<open>\<^verbatim>\<open>mi_bchunk_try_xsetN\<close> returns its result, the chunk, and what it stored through
  \<^verbatim>\<open>pmaybe_all_clear\<close>: \<open>None\<close> where it returns before the first store.\<close>

definition mi_bchunk_try_xsetN ::
  "bool \<Rightarrow> mi_bchunk_t \<Rightarrow> nat \<Rightarrow> nat \<Rightarrow> bool \<times> mi_bchunk_t \<times> bool option" where
  "mi_bchunk_try_xsetN is_set chunk cidx n =
     (if n = 0 then (True, chunk, None)
      else
        (let start_idx = cidx mod MI_BFIELD_BITS;
             start_field = cidx div MI_BFIELD_BITS;
             end_field = MI_BCHUNK_FIELDS;
             mask_mid = 0;
             mask_end = 0;
             maybe_all_clear = True;
             field = start_field;
             m0 = MI_BFIELD_BITS - start_idx;
             m = (if m0 > n then n else m0);
             mask_start = mi_bfield_mask m start_idx;
             (ok, b', field_is_clear) = mi_bfield_atomic_try_xset_mask is_set (chunk ! field) mask_start
         in if \<not> ok then (False, chunk[field := b'], Some False)
            else
              (let chunk1 = chunk[field := b'];
                   maybe_all_clear1 = (maybe_all_clear \<and> field_is_clear);
                   n1 = n - m
               in if n1 = 0 then (True, chunk1, Some maybe_all_clear1)
                  else
                    (let (ok2, chunk2, field2, n2, mask_mid2, maybe_all_clear2) =
                           mi_bchunk_try_xsetN_mid is_set chunk1 field n1 mask_mid maybe_all_clear1
                     in if \<not> ok2
                        then (False,
                              mi_bchunk_try_xsetN_restore is_set chunk2 field2 start_field end_field
                                mask_start mask_mid2 mask_end,
                              Some False)
                        else if n2 > 0 then
                          (let field3 = field2 + 1;
                               end_field3 = field3;
                               mask_end3 = mi_bfield_mask n2 0;
                               (ok3, b3, field_is_clear3) =
                                  mi_bfield_atomic_try_xset_mask is_set (chunk2 ! field3) mask_end3
                           in if \<not> ok3
                              then (False,
                                    mi_bchunk_try_xsetN_restore is_set (chunk2[field3 := b3]) field3
                                      start_field end_field3 mask_start mask_mid2 mask_end3,
                                    Some False)
                              else (True, chunk2[field3 := b3],
                                    Some (maybe_all_clear2 \<and> field_is_clear3)))
                        else (True, chunk2, Some maybe_all_clear2)))))"

definition mi_bchunk_try_clearN :: "mi_bchunk_t \<Rightarrow> nat \<Rightarrow> nat \<Rightarrow> bool \<times> mi_bchunk_t \<times> bool option" where
  "mi_bchunk_try_clearN chunk cidx n = mi_bchunk_try_xsetN False chunk cidx n"

subsection \<open>Find and clear\<close>

text \<open>The scalar code is embedded (\<^verbatim>\<open>MI_OPT_SIMD\<close> is 0 unless the build sets it).  A
  find operation returns \<open>Some idx\<close> where the source returns true with \<^verbatim>\<open>*pidx = idx\<close>,
  and \<open>None\<close> where it returns false; the chunk is returned beside it.\<close>

definition mi_bchunk_try_find_and_clear_at ::
  "mi_bchunk_t \<Rightarrow> nat \<Rightarrow> bool \<Rightarrow> nat option \<times> mi_bchunk_t" where
  "mi_bchunk_try_find_and_clear_at chunk chunk_idx allow_allset =
     (let b = chunk ! chunk_idx
      in if \<not> allow_allset \<and> NOT b = 0 then (None, chunk)
         else (case mi_bfield_find_least_bit b of
                 Some cidx \<Rightarrow>
                   (let (ok, b', _) = mi_bfield_atomic_try_clear (chunk ! chunk_idx) cidx
                    in if ok then (Some (chunk_idx * MI_BFIELD_BITS + cidx), chunk[chunk_idx := b'])
                       else (None, chunk[chunk_idx := b']))
               | None \<Rightarrow> (None, chunk)))"

text \<open>A loop \<^verbatim>\<open>for (i = \<dots>) { if (f(chunk, i, pidx)) return true; }\<close> over the field
  indices \<open>is\<close>: it stops at the first \<open>i\<close> where \<open>f\<close> succeeds.\<close>

fun mi_bchunk_for_fields ::
  "(mi_bchunk_t \<Rightarrow> nat \<Rightarrow> nat option \<times> mi_bchunk_t) \<Rightarrow> mi_bchunk_t \<Rightarrow> nat list
     \<Rightarrow> nat option \<times> mi_bchunk_t" where
  "mi_bchunk_for_fields f chunk [] = (None, chunk)"
| "mi_bchunk_for_fields f chunk (i # is) =
     (case f chunk i of
        (Some idx, chunk') \<Rightarrow> (Some idx, chunk')
      | (None, chunk') \<Rightarrow> mi_bchunk_for_fields f chunk' is)"

definition mi_bchunk_try_find_and_clear :: "mi_bchunk_t \<Rightarrow> nat option \<times> mi_bchunk_t" where
  "mi_bchunk_try_find_and_clear chunk =
     (case mi_bchunk_for_fields (\<lambda>c i. mi_bchunk_try_find_and_clear_at c i False) chunk
             [0..<MI_BCHUNK_FIELDS] of
        (Some idx, chunk') \<Rightarrow> (Some idx, chunk')
      | (None, chunk') \<Rightarrow>
          mi_bchunk_for_fields (\<lambda>c i. mi_bchunk_try_find_and_clear_at c i True) chunk'
            [0..<MI_BCHUNK_FIELDS])"

definition mi_bchunk_try_find_and_clear_1 :: "mi_bchunk_t \<Rightarrow> nat \<Rightarrow> nat option \<times> mi_bchunk_t" where
  "mi_bchunk_try_find_and_clear_1 chunk n = mi_bchunk_try_find_and_clear chunk"

text \<open>The detection value of \<^verbatim>\<open>mi_bchunk_try_find_and_clear8_at\<close>.\<close>

definition has_set8 :: "mi_bfield_t \<Rightarrow> mi_bfield_t" where
  "has_set8 b = drop_bit 7 ((NOT b - MI_BFIELD_LO_BIT8) AND (b AND MI_BFIELD_HI_BIT8))"

definition mi_bchunk_try_find_and_clear8_at ::
  "mi_bchunk_t \<Rightarrow> nat \<Rightarrow> bool \<Rightarrow> nat option \<times> mi_bchunk_t" where
  "mi_bchunk_try_find_and_clear8_at chunk chunk_idx allow_all_set =
     (let b = chunk ! chunk_idx
      in if \<not> allow_all_set \<and> NOT b = 0 then (None, chunk)
         else (case mi_bfield_find_least_bit (has_set8 b) of
                 Some idx \<Rightarrow>
                   (let byte_idx = idx div 8;
                        (ok, b', _) = mi_bfield_atomic_try_clear8 (chunk ! chunk_idx) byte_idx
                    in if ok then (Some (chunk_idx * MI_BFIELD_BITS + idx), chunk[chunk_idx := b'])
                       else (None, chunk[chunk_idx := b']))
               | None \<Rightarrow> (None, chunk)))"

definition mi_bchunk_try_find_and_clear8 :: "mi_bchunk_t \<Rightarrow> nat option \<times> mi_bchunk_t" where
  "mi_bchunk_try_find_and_clear8 chunk =
     (case mi_bchunk_for_fields (\<lambda>c i. mi_bchunk_try_find_and_clear8_at c i False) chunk
             [0..<MI_BCHUNK_FIELDS] of
        (Some idx, chunk') \<Rightarrow> (Some idx, chunk')
      | (None, chunk') \<Rightarrow>
          mi_bchunk_for_fields (\<lambda>c i. mi_bchunk_try_find_and_clear8_at c i True) chunk'
            [0..<MI_BCHUNK_FIELDS])"

definition mi_bchunk_try_find_and_clear_8 :: "mi_bchunk_t \<Rightarrow> nat \<Rightarrow> nat option \<times> mi_bchunk_t" where
  "mi_bchunk_try_find_and_clear_8 chunk n = mi_bchunk_try_find_and_clear8 chunk"

definition mi_bchunk_try_find_and_clearX :: "mi_bchunk_t \<Rightarrow> nat option \<times> mi_bchunk_t" where
  "mi_bchunk_try_find_and_clearX chunk =
     mi_bchunk_for_fields
       (\<lambda>c i. let b = c ! i
              in if NOT b = 0
                 then (let (ok, b') = mi_bfield_atomic_try_clearX (c ! i)
                       in if ok then (Some (i * MI_BFIELD_BITS), c[i := b']) else (None, c[i := b']))
                 else (None, c))
       chunk [0..<MI_BCHUNK_FIELDS]"

definition mi_bchunk_try_find_and_clear_X :: "mi_bchunk_t \<Rightarrow> nat \<Rightarrow> nat option \<times> mi_bchunk_t" where
  "mi_bchunk_try_find_and_clear_X chunk n = mi_bchunk_try_find_and_clearX chunk"

subsection \<open>Runs of \<open>n\<close> bits within a field\<close>

text \<open>Facts on the bit scan and on shifts that the termination of the search loop of
  \<^verbatim>\<open>mi_bchunk_try_find_and_clearNX\<close> rests on.\<close>

lemma mi_ctz_le: "mi_ctz x \<le> 64"
  unfolding mi_ctz_def using length_takeWhile_le [of "\<lambda>n. \<not> bit x n" "[0..<64]"] by simp

lemma mi_ctz_least: "j < mi_ctz x \<Longrightarrow> \<not> bit x j"
proof -
  assume j: "j < mi_ctz x"
  have j64: "j < 64" using j mi_ctz_le [of x] by simp
  have "takeWhile (\<lambda>n. \<not> bit x n) [0..<64] ! j \<in> set (takeWhile (\<lambda>n. \<not> bit x n) [0..<64])"
    using j unfolding mi_ctz_def by (intro nth_mem)
  then have "\<not> bit x (takeWhile (\<lambda>n. \<not> bit x n) [0..<64] ! j)"
    by (auto dest: set_takeWhileD)
  moreover have "takeWhile (\<lambda>n. \<not> bit x n) [0..<64] ! j = [0..<64] ! j"
    using j unfolding mi_ctz_def by (rule takeWhile_nth)
  ultimately show ?thesis using j64 by simp
qed

lemma mi_ctz_bit: "x \<noteq> 0 \<Longrightarrow> mi_ctz x < 64 \<and> bit x (mi_ctz x)"
proof -
  assume nz: "x \<noteq> 0"
  then obtain k where k: "bit x k" by (auto simp: bit_eq_iff)
  then have k64: "k < 64" using bit_imp_le_length [of x k] by simp
  have "mi_ctz x \<le> k"
    using mi_ctz_least [of k x] k by (cases "k < mi_ctz x") auto
  then have lt: "mi_ctz x < 64" using k64 by simp
  then have "length (takeWhile (\<lambda>n. \<not> bit x n) [0..<64]) < length [0..<64]"
    by (simp add: mi_ctz_def)
  from nth_length_takeWhile [OF this] lt show ?thesis
    by (simp add: mi_ctz_def)
qed

lemma mi_ctz_eqI: "bit x k \<Longrightarrow> (\<And>j. j < k \<Longrightarrow> \<not> bit x j) \<Longrightarrow> mi_ctz x = k"
proof -
  assume k: "bit x k" and l: "\<And>j. j < k \<Longrightarrow> \<not> bit x j"
  then have nz: "x \<noteq> 0" by auto
  from mi_ctz_bit [OF nz] l have "\<not> mi_ctz x < k" by auto
  moreover from mi_ctz_least [of k x] k have "\<not> k < mi_ctz x" by auto
  ultimately show ?thesis by simp
qed

lemma mi_ctz_zero: "mi_ctz 0 = 64"
  by (simp add: mi_ctz_def takeWhile_eq_all_conv [THEN iffD2])

lemma try_clear_mask_fails_unchanged:
  "mi_bfield_atomic_try_clear_mask f m = (False, f', ac) \<Longrightarrow> f' = f \<and> f AND m \<noteq> m"
  by (auto simp: mi_bfield_atomic_try_clear_mask_def split: if_splits)

lemma and_push_bit_of_drop_bit:
  fixes f :: mi_bfield_t
  assumes "drop_bit k f AND msk = msk"
  shows "f AND push_bit k msk = push_bit k msk"
proof (rule bit_eqI)
  fix j
  have "\<And>q. bit msk q \<Longrightarrow> bit f (k + q)"
  proof -
    fix q assume "bit msk q"
    then have "bit (drop_bit k f AND msk) q" using assms by simp
    then show "bit f (k + q)" by (simp add: bit_and_iff bit_drop_bit_eq)
  qed
  from this [of "j - k"] show "bit (f AND push_bit k msk) j = bit (push_bit k msk) j"
    by (auto simp: bit_and_iff bit_push_bit_iff)
qed

lemma NX_reload_decreases:
  assumes "drop_bit idx b AND msk = msk"
    and "mi_bfield_atomic_try_clear_mask f (push_bit (bshift + idx) msk) = (False, f', ac)"
  shows "b \<noteq> drop_bit bshift f"
proof
  assume inv: "b = drop_bit bshift f"
  then have "drop_bit (bshift + idx) f AND msk = msk"
    using assms(1) by (simp add: drop_bit_drop_bit add.commute)
  then have "f AND push_bit (bshift + idx) msk = push_bit (bshift + idx) msk"
    by (rule and_push_bit_of_drop_bit)
  with try_clear_mask_fails_unchanged [OF assms(2)] show False by simp
qed

lemma unat_drop_bit_div:
  fixes x :: mi_bfield_t
  shows "unat (drop_bit k x) = unat x div 2 ^ k"
proof -
  have "unat (drop_bit k x) = drop_bit k (unat x)" by (rule unat_drop_bit_eq)
  then show ?thesis by (simp only: drop_bit_eq_div)
qed

lemma drop_bit_word_less:
  fixes x :: mi_bfield_t
  assumes "x \<noteq> 0" and "0 < k"
  shows "unat (drop_bit k x) < unat x"
proof -
  have "unat x \<noteq> 0" using assms(1) by (simp add: unat_eq_0)
  moreover have "(1::nat) < 2 ^ k" using assms(2) one_less_power [of "2::nat" k] by simp
  ultimately have "unat x div 2 ^ k < unat x"
    by (intro div_less_dividend) auto
  then show ?thesis by (simp only: unat_drop_bit_div)
qed

lemma drop_bit_word_le:
  fixes x :: mi_bfield_t
  shows "unat (drop_bit k x) \<le> unat x"
  by (simp only: unat_drop_bit_div div_le_dividend)

lemma NX_advance_decreases:
  assumes "mi_bfield_find_least_bit b = Some idx"
    and "drop_bit idx b AND msk \<noteq> msk"
  shows "unat (drop_bit (mi_bfield_ctz (NOT (drop_bit idx b))) (drop_bit idx b)) < unat b"
proof -
  let ?b1 = "drop_bit idx b"
  have nz: "b \<noteq> 0" and idx: "idx = mi_ctz b"
    using assms(1) by (auto simp: mi_bfield_find_least_bit_def mi_bsf_def split: if_splits)
  have b10: "bit ?b1 0" using mi_ctz_bit [OF nz] idx by (simp add: bit_drop_bit_eq)
  then have b1nz: "?b1 \<noteq> 0" by auto
  have "mi_ctz (NOT ?b1) \<noteq> 0"
  proof
    assume z: "mi_ctz (NOT ?b1) = 0"
    have "NOT ?b1 \<noteq> 0"
    proof
      assume "NOT ?b1 = 0"
      then have "?b1 = NOT 0" by (metis bit.double_compl)
      then show False using assms(2) by simp
    qed
    then have "bit (NOT ?b1) 0" using mi_ctz_bit [of "NOT ?b1"] z by auto
    with b10 show False by (simp add: bit_not_iff)
  qed
  then have "unat (drop_bit (mi_ctz (NOT ?b1)) ?b1) < unat ?b1"
    using b1nz by (intro drop_bit_word_less) auto
  moreover have "unat ?b1 \<le> unat b" by (rule drop_bit_word_le)
  ultimately show ?thesis by (simp add: mi_bfield_ctz_def)
qed

text \<open>The \<^verbatim>\<open>while\<close> loop of \<^verbatim>\<open>mi_bchunk_try_find_and_clearNX\<close> on field \<open>i\<close>, with the
  local copy \<open>b\<close> of the field and the shift \<open>bshift\<close>.  A failed commit reloads the field;
  the loop ends since a commit fails only when \<open>b\<close> was not the field shifted by \<open>bshift\<close>,
  which the reload establishes, and every other round shifts a one out of \<open>b\<close>.\<close>

function mi_bchunk_try_find_and_clearNX_while ::
  "mi_bchunk_t \<Rightarrow> nat \<Rightarrow> nat \<Rightarrow> mi_bfield_t \<Rightarrow> mi_bfield_t \<Rightarrow> nat \<Rightarrow> nat option \<times> mi_bchunk_t" where
  "mi_bchunk_try_find_and_clearNX_while chunk n i msk b bshift =
     (case mi_bfield_find_least_bit b of
        None \<Rightarrow> (None, chunk)
      | Some idx \<Rightarrow>
          (let b1 = drop_bit idx b; bshift1 = bshift + idx
           in if bshift1 + n > MI_BFIELD_BITS then (None, chunk)
              else if (b1 AND msk) = msk then
                (let (ok, b', _) = mi_bfield_atomic_try_clear_mask (chunk ! i) (push_bit bshift1 msk)
                 in if ok then (Some (i * MI_BFIELD_BITS + bshift1), chunk[i := b'])
                    else (let chunk1 = chunk[i := b']; bshift2 = bshift1 - idx
                          in mi_bchunk_try_find_and_clearNX_while chunk1 n i msk
                               (drop_bit bshift2 (chunk1 ! i)) bshift2))
              else
                (let ones = mi_bfield_ctz (NOT b1)
                 in mi_bchunk_try_find_and_clearNX_while chunk n i msk
                      (drop_bit ones b1) (bshift1 + ones))))"
  by pat_completeness auto
termination
proof (relation "measure (\<lambda>(chunk, n, i, msk, b, bshift).
          (if b = drop_bit bshift (chunk ! i) then 0 else 2 ^ 64) + unat b)", goal_cases)
  case 1
  show ?case by simp
next
  case (2 chunk n i msk b bshift idx b1 bshift1 r ok y b' ac chunk1 bshift2)
  then have f: "mi_bfield_atomic_try_clear_mask (chunk ! i) (push_bit (bshift + idx) msk) = (False, b', ac)"
    and m: "drop_bit idx b AND msk = msk"
    by auto
  from try_clear_mask_fails_unchanged [OF f] have "b' = chunk ! i" by simp
  then have c1: "chunk1 ! i = chunk ! i" and "bshift2 = bshift" using 2 by simp_all
  moreover have "b \<noteq> drop_bit bshift (chunk ! i)" using m f by (rule NX_reload_decreases)
  moreover have "unat (drop_bit bshift (chunk ! i)) < 2 ^ 64"
    using unsigned_less [of "drop_bit bshift (chunk ! i)"] by simp
  ultimately show ?case by simp
next
  case (3 chunk n i msk b bshift idx b1 bshift1 ones)
  then have "unat (drop_bit ones b1) < unat b"
    using NX_advance_decreases [of b idx msk] by simp
  moreover have "b = drop_bit bshift (chunk ! i) \<Longrightarrow> drop_bit ones b1 = drop_bit (bshift1 + ones) (chunk ! i)"
    using 3 by (simp add: drop_bit_drop_bit add.commute add.left_commute)
  ultimately show ?case by auto
qed

declare mi_bchunk_try_find_and_clearNX_while.simps [simp del]

definition mi_bchunk_try_find_and_clearNX :: "mi_bchunk_t \<Rightarrow> nat \<Rightarrow> nat option \<times> mi_bchunk_t" where
  "mi_bchunk_try_find_and_clearNX chunk n =
     (if n = 0 \<or> n > MI_BFIELD_BITS then (None, chunk)
      else
        (let msk = mi_bfield_mask n 0
         in mi_bchunk_for_fields
              (\<lambda>c i. mi_bchunk_try_find_and_clearNX_while c n i msk (c ! i) 0)
              chunk [0..<MI_BCHUNK_FIELDS]))"

subsection \<open>Runs of \<open>n\<close> bits across fields\<close>

text \<open>The \<^verbatim>\<open>do \<dots> while (++j < field_count)\<close> pre-scan of
  \<^verbatim>\<open>mi_bchunk_try_find_and_clearN_\<close>.  It returns \<open>allset\<close> and the value of \<open>i\<close>, which the
  scan advances by \<open>j\<close> when it gives up.  \<open>m\<close> is a \<^verbatim>\<open>size_t\<close>, here a 64-bit word, since
  its subtraction can wrap around, as the source notes.\<close>

function mi_bchunk_try_find_and_clearN_prescan ::
  "mi_bchunk_t \<Rightarrow> nat \<Rightarrow> nat \<Rightarrow> 64 word \<Rightarrow> nat \<Rightarrow> bool \<times> nat" where
  "mi_bchunk_try_find_and_clearN_prescan chunk i j m field_count =
     (let b = chunk ! (i + j)
      in case mi_bfield_find_least_bit (NOT b) of
           Some idx \<Rightarrow>
             if unat m > idx then (False, i + j)
             else if j + 1 < field_count
                  then mi_bchunk_try_find_and_clearN_prescan chunk i (j + 1) m field_count
                  else (True, i)
         | None \<Rightarrow>
             (let m1 = m - of_nat MI_BFIELD_BITS
              in if j + 1 < field_count
                 then mi_bchunk_try_find_and_clearN_prescan chunk i (j + 1) m1 field_count
                 else (True, i)))"
  by pat_completeness auto
termination
  by (relation "measure (\<lambda>(chunk, i, j, m, field_count). field_count - j)") auto

declare mi_bchunk_try_find_and_clearN_prescan.simps [simp del]

lemma mi_bchunk_try_find_and_clearN_prescan_ge:
  "i \<le> snd (mi_bchunk_try_find_and_clearN_prescan chunk i j m field_count)"
proof (induction chunk i j m field_count rule: mi_bchunk_try_find_and_clearN_prescan.induct)
  case (1 chunk i j m field_count)
  show ?case
    by (subst mi_bchunk_try_find_and_clearN_prescan.simps)
       (use 1 in \<open>auto simp: Let_def split: option.splits\<close>)
qed

text \<open>The \<^verbatim>\<open>for\<close> loop of \<^verbatim>\<open>mi_bchunk_try_find_and_clearN_\<close> over the first field \<open>i\<close>.\<close>

function mi_bchunk_try_find_and_clearN_loop ::
  "mi_bchunk_t \<Rightarrow> nat \<Rightarrow> nat \<Rightarrow> nat \<Rightarrow> nat option \<times> mi_bchunk_t" where
  "mi_bchunk_try_find_and_clearN_loop chunk n field_count i =
     (if i \<le> MI_BCHUNK_FIELDS - field_count then
        (let (allset, i1) = mi_bchunk_try_find_and_clearN_prescan chunk i 0 (of_nat n) field_count
         in if allset then
              (let cidx = i1 * MI_BFIELD_BITS;
                   (ok, chunk', _) = mi_bchunk_try_clearN chunk cidx n
               in if ok then (Some cidx, chunk')
                  else mi_bchunk_try_find_and_clearN_loop chunk' n field_count (i1 + 1))
            else mi_bchunk_try_find_and_clearN_loop chunk n field_count (i1 + 1))
      else (None, chunk))"
  by pat_completeness auto
termination
proof (relation "measure (\<lambda>(chunk, n, field_count, i). (MI_BCHUNK_FIELDS - field_count) + 1 - i)",
       goal_cases)
  case 1
  show ?case by simp
next
  case (2 chunk n field_count i r allset i1)
  then have "i1 = snd (mi_bchunk_try_find_and_clearN_prescan chunk i 0 (of_nat n) field_count)"
    by (metis snd_conv)
  then have "i \<le> i1"
    using mi_bchunk_try_find_and_clearN_prescan_ge [of i chunk 0 "of_nat n" field_count] by simp
  with 2 show ?case by simp
next
  case (3 chunk n field_count i r allset i1)
  then have "i1 = snd (mi_bchunk_try_find_and_clearN_prescan chunk i 0 (of_nat n) field_count)"
    by (metis snd_conv)
  then have "i \<le> i1"
    using mi_bchunk_try_find_and_clearN_prescan_ge [of i chunk 0 "of_nat n" field_count] by simp
  with 3 show ?case by simp
qed

declare mi_bchunk_try_find_and_clearN_loop.simps [simp del]

text \<open>\<^verbatim>\<open>mi_bchunk_try_find_and_clearN_\<close>; a name cannot end with an underscore here, the
  prime stands for it.\<close>

definition mi_bchunk_try_find_and_clearN' :: "mi_bchunk_t \<Rightarrow> nat \<Rightarrow> nat option \<times> mi_bchunk_t" where
  "mi_bchunk_try_find_and_clearN' chunk n =
     (if n = 0 \<or> n > MI_BCHUNK_BITS then (None, chunk)
      else
        (let field_count = mi_divide_up n MI_BFIELD_BITS
         in mi_bchunk_try_find_and_clearN_loop chunk n field_count 0))"

subsection \<open>Auxiliary chunk operations\<close>

definition mi_bchunk_all_are_clear :: "mi_bchunk_t \<Rightarrow> bool" where
  "mi_bchunk_all_are_clear chunk = list_all (\<lambda>i. chunk ! i = 0) [0..<MI_BCHUNK_FIELDS]"

definition mi_bchunk_all_are_clear_relaxed :: "mi_bchunk_t \<Rightarrow> bool" where
  "mi_bchunk_all_are_clear_relaxed chunk = mi_bchunk_all_are_clear chunk"

text \<open>The loop of \<^verbatim>\<open>mi_bchunk_bsr\<close>, from the field below \<open>i\<close> downwards.\<close>

fun mi_bchunk_bsr_loop :: "mi_bchunk_t \<Rightarrow> nat \<Rightarrow> nat option" where
  "mi_bchunk_bsr_loop chunk 0 = None"
| "mi_bchunk_bsr_loop chunk (Suc i) =
     (case mi_bsr (chunk ! i) of
        Some idx \<Rightarrow> Some (i * MI_BFIELD_BITS + idx)
      | None \<Rightarrow> mi_bchunk_bsr_loop chunk i)"

definition mi_bchunk_bsr :: "mi_bchunk_t \<Rightarrow> nat option" where
  "mi_bchunk_bsr chunk = mi_bchunk_bsr_loop chunk MI_BCHUNK_FIELDS"

section \<open>The bitmap and its chunkmap\<close>

record mi_bitmap_t =
  chunk_count :: nat
  chunk_max_accessed :: nat
  chunkmap :: mi_bchunk_t
  chunks :: "mi_bchunk_t list"

text \<open>Modelled from the spec: the accessors \<^verbatim>\<open>mi_bitmap_chunk_count\<close> and
  \<^verbatim>\<open>mi_bitmap_max_bits\<close> of \<^verbatim>\<open>bitmap.h\<close> (\<open>max_bits = chunk_count \<times> B\<close>), and the
  rounding \<^verbatim>\<open>_mi_align_up\<close>.\<close>

definition mi_bitmap_chunk_count :: "mi_bitmap_t \<Rightarrow> nat" where
  "mi_bitmap_chunk_count bitmap = chunk_count bitmap"

definition mi_bitmap_max_bits :: "mi_bitmap_t \<Rightarrow> nat" where
  "mi_bitmap_max_bits bitmap = mi_bitmap_chunk_count bitmap * MI_BCHUNK_BITS"

definition mi_align_up :: "nat \<Rightarrow> nat \<Rightarrow> nat" where
  "mi_align_up sz alignment = ((sz + alignment - 1) div alignment) * alignment"

definition mi_bitmap_chunkmap_set_max :: "mi_bitmap_t \<Rightarrow> nat \<Rightarrow> mi_bitmap_t" where
  "mi_bitmap_chunkmap_set_max bitmap chunk_idx =
     (let oldmax = chunk_max_accessed bitmap
      in if chunk_idx > oldmax then bitmap\<lparr>chunk_max_accessed := chunk_idx\<rparr> else bitmap)"

definition mi_bitmap_chunkmap_set :: "mi_bitmap_t \<Rightarrow> nat \<Rightarrow> mi_bitmap_t" where
  "mi_bitmap_chunkmap_set bitmap chunk_idx =
     (let (_, cmap') = mi_bchunk_set (chunkmap bitmap) chunk_idx;
          bitmap1 = bitmap\<lparr>chunkmap := cmap'\<rparr>
      in mi_bitmap_chunkmap_set_max bitmap1 chunk_idx)"

definition mi_bitmap_chunkmap_try_clear :: "mi_bitmap_t \<Rightarrow> nat \<Rightarrow> bool \<times> mi_bitmap_t" where
  "mi_bitmap_chunkmap_try_clear bitmap chunk_idx =
     (if \<not> mi_bchunk_all_are_clear_relaxed (chunks bitmap ! chunk_idx) then (False, bitmap)
      else
        (let (_, cmap', _) = mi_bchunk_clear (chunkmap bitmap) chunk_idx;
             bitmap1 = bitmap\<lparr>chunkmap := cmap'\<rparr>
         in if \<not> mi_bchunk_all_are_clear_relaxed (chunks bitmap1 ! chunk_idx)
            then (let (_, cmap2) = mi_bchunk_set (chunkmap bitmap1) chunk_idx
                  in (False, bitmap1\<lparr>chunkmap := cmap2\<rparr>))
            else (True, mi_bitmap_chunkmap_set_max bitmap1 chunk_idx)))"

text \<open>\<^verbatim>\<open>mi_bitmap_size\<close> yields the chunk count next to the size in bytes; the size is
  not modelled.\<close>

definition mi_bitmap_size :: "nat \<Rightarrow> nat" where
  "mi_bitmap_size bit_count = mi_align_up bit_count MI_BCHUNK_BITS div MI_BCHUNK_BITS"

text \<open>The memory a bitmap of \<open>chunk_count\<close> chunks occupies, filled with zeros.\<close>

definition mi_memzero_bitmap :: "nat \<Rightarrow> mi_bitmap_t" where
  "mi_memzero_bitmap cnt =
     \<lparr>chunk_count = 0, chunk_max_accessed = 0,
      chunkmap = replicate MI_BCHUNK_FIELDS 0,
      chunks = replicate cnt (replicate MI_BCHUNK_FIELDS 0)\<rparr>"

definition mi_bitmap_init :: "mi_bitmap_t \<Rightarrow> nat \<Rightarrow> bool \<Rightarrow> mi_bitmap_t" where
  "mi_bitmap_init bitmap bit_count already_zero =
     (let cnt = mi_bitmap_size bit_count;
          bitmap1 = (if \<not> already_zero then mi_memzero_bitmap cnt else bitmap)
      in bitmap1\<lparr>chunk_count := cnt\<rparr>)"

subsection \<open>Unsafe bulk set\<close>

text \<open>\<^verbatim>\<open>_mi_memset(&bitmap->chunks[chunk_idx], ~0, mid_chunks * MI_BCHUNK_SIZE)\<close>.\<close>

definition mi_memset_chunks :: "mi_bchunk_t list \<Rightarrow> nat \<Rightarrow> nat \<Rightarrow> mi_bchunk_t list" where
  "mi_memset_chunks cs chunk_idx mid_chunks =
     fold (\<lambda>k cs'. cs'[k := replicate MI_BCHUNK_FIELDS mi_bfield_all_set])
       [chunk_idx..<chunk_idx + mid_chunks] cs"

text \<open>The loop of \<^verbatim>\<open>mi_bitmap_unsafe_setN\<close> that sets the chunkmap bits of the chunks
  written by the memset; it returns the bitmap and the final \<open>chunk_idx\<close>.\<close>

function mi_bitmap_unsafe_setN_mid :: "mi_bitmap_t \<Rightarrow> nat \<Rightarrow> nat \<Rightarrow> mi_bitmap_t \<times> nat" where
  "mi_bitmap_unsafe_setN_mid bitmap chunk_idx end_chunk =
     (if chunk_idx < end_chunk then
        (if chunk_idx mod MI_BFIELD_BITS = 0 \<and> chunk_idx + MI_BFIELD_BITS \<le> end_chunk
         then
           (let bitmap1 = bitmap\<lparr>chunkmap :=
                             (chunkmap bitmap)[chunk_idx div MI_BFIELD_BITS := mi_bfield_all_set]\<rparr>;
                bitmap2 = mi_bitmap_chunkmap_set bitmap1 (chunk_idx + MI_BFIELD_BITS - 1)
            in mi_bitmap_unsafe_setN_mid bitmap2 (chunk_idx + MI_BFIELD_BITS) end_chunk)
         else mi_bitmap_unsafe_setN_mid (mi_bitmap_chunkmap_set bitmap chunk_idx)
                (chunk_idx + 1) end_chunk)
      else (bitmap, chunk_idx))"
  by pat_completeness auto
termination
  by (relation "measure (\<lambda>(bitmap, chunk_idx, end_chunk). end_chunk - chunk_idx)")
     (auto simp: MI_BFIELD_BITS_def)

declare mi_bitmap_unsafe_setN_mid.simps [simp del]

definition mi_bitmap_unsafe_setN :: "mi_bitmap_t \<Rightarrow> nat \<Rightarrow> nat \<Rightarrow> mi_bitmap_t" where
  "mi_bitmap_unsafe_setN bitmap idx n =
     (let chunk_idx = idx div MI_BCHUNK_BITS;
          cidx = idx mod MI_BCHUNK_BITS;
          m0 = MI_BCHUNK_BITS - cidx;
          m = (if m0 > n then n else m0);
          (_, c', _) = mi_bchunk_setN (chunks bitmap ! chunk_idx) cidx m;
          bitmap1 = mi_bitmap_chunkmap_set (bitmap\<lparr>chunks := (chunks bitmap)[chunk_idx := c']\<rparr>) chunk_idx;
          chunk_idx1 = chunk_idx + 1;
          n1 = n - m;
          mid_chunks = n1 div MI_BCHUNK_BITS;
          (bitmap2, chunk_idx2, n2) =
             (if mid_chunks > 0 then
                (let bitmap_m = bitmap1\<lparr>chunks := mi_memset_chunks (chunks bitmap1) chunk_idx1 mid_chunks\<rparr>;
                     end_chunk = chunk_idx1 + mid_chunks;
                     (bitmap_e, chunk_idx_e) = mi_bitmap_unsafe_setN_mid bitmap_m chunk_idx1 end_chunk
                 in (bitmap_e, chunk_idx_e, n1 - mid_chunks * MI_BCHUNK_BITS))
              else (bitmap1, chunk_idx1, n1));
          bitmap3 =
             (if n2 > 0 then
                (let (_, c3, _) = mi_bchunk_setN (chunks bitmap2 ! chunk_idx2) 0 n2
                 in mi_bitmap_chunkmap_set
                      (bitmap2\<lparr>chunks := (chunks bitmap2)[chunk_idx2 := c3]\<rparr>) chunk_idx2)
              else bitmap2)
      in bitmap3\<lparr>chunk_max_accessed := 0\<rparr>)"

subsection \<open>Set and clear\<close>

definition mi_bitmap_xset :: "bool \<Rightarrow> mi_bitmap_t \<Rightarrow> nat \<Rightarrow> bool \<times> mi_bitmap_t" where
  "mi_bitmap_xset is_set bitmap idx =
     (let chunk_idx = idx div MI_BCHUNK_BITS; cidx = idx mod MI_BCHUNK_BITS
      in if is_set then
           (let (wasclear, c') = mi_bchunk_set (chunks bitmap ! chunk_idx) cidx;
                bitmap1 = bitmap\<lparr>chunks := (chunks bitmap)[chunk_idx := c']\<rparr>
            in (wasclear, mi_bitmap_chunkmap_set bitmap1 chunk_idx))
         else
           (let (wasset, c', maybe_all_clear) = mi_bchunk_clear (chunks bitmap ! chunk_idx) cidx;
                bitmap1 = bitmap\<lparr>chunks := (chunks bitmap)[chunk_idx := c']\<rparr>
            in (wasset, if maybe_all_clear then snd (mi_bitmap_chunkmap_try_clear bitmap1 chunk_idx)
                        else bitmap1)))"

definition mi_bitmap_xset8 :: "bool \<Rightarrow> mi_bitmap_t \<Rightarrow> nat \<Rightarrow> bool \<times> mi_bitmap_t" where
  "mi_bitmap_xset8 is_set bitmap idx =
     (let chunk_idx = idx div MI_BCHUNK_BITS; byte_idx = (idx mod MI_BCHUNK_BITS) div 8
      in if is_set then
           (let (wasclear, c') = mi_bchunk_set8 (chunks bitmap ! chunk_idx) byte_idx;
                bitmap1 = bitmap\<lparr>chunks := (chunks bitmap)[chunk_idx := c']\<rparr>
            in (wasclear, mi_bitmap_chunkmap_set bitmap1 chunk_idx))
         else
           (let (wasset, c', maybe_all_clear) = mi_bchunk_clear8 (chunks bitmap ! chunk_idx) byte_idx;
                bitmap1 = bitmap\<lparr>chunks := (chunks bitmap)[chunk_idx := c']\<rparr>
            in (wasset, if maybe_all_clear then snd (mi_bitmap_chunkmap_try_clear bitmap1 chunk_idx)
                        else bitmap1)))"

definition mi_bitmap_xsetX :: "bool \<Rightarrow> mi_bitmap_t \<Rightarrow> nat \<Rightarrow> bool \<times> mi_bitmap_t" where
  "mi_bitmap_xsetX is_set bitmap idx =
     (let chunk_idx = idx div MI_BCHUNK_BITS; field_idx = (idx mod MI_BCHUNK_BITS) div MI_BFIELD_BITS
      in if is_set then
           (let (wasclear, c') = mi_bchunk_setX (chunks bitmap ! chunk_idx) field_idx;
                bitmap1 = bitmap\<lparr>chunks := (chunks bitmap)[chunk_idx := c']\<rparr>
            in (wasclear, mi_bitmap_chunkmap_set bitmap1 chunk_idx))
         else
           (let (wasset, c', maybe_all_clear) = mi_bchunk_clearX (chunks bitmap ! chunk_idx) field_idx;
                bitmap1 = bitmap\<lparr>chunks := (chunks bitmap)[chunk_idx := c']\<rparr>
            in (wasset, if maybe_all_clear then snd (mi_bitmap_chunkmap_try_clear bitmap1 chunk_idx)
                        else bitmap1)))"

text \<open>The ranged operations return, as third component, what they store through
  \<^verbatim>\<open>already_xset\<close>: \<open>None\<close> where nothing is stored.\<close>

text \<open>\<^verbatim>\<open>mi_bitmap_xsetN_\<close> (the prime stands for the final underscore).\<close>

definition mi_bitmap_xsetN' ::
  "bool \<Rightarrow> mi_bitmap_t \<Rightarrow> nat \<Rightarrow> nat \<Rightarrow> bool \<times> mi_bitmap_t \<times> nat option" where
  "mi_bitmap_xsetN' is_set bitmap idx n0 =
     (let chunk_idx = idx div MI_BCHUNK_BITS;
          cidx = idx mod MI_BCHUNK_BITS;
          n = (if cidx + n0 > MI_BCHUNK_BITS then MI_BCHUNK_BITS - cidx else n0)
      in if is_set then
           (let (allclear, c', already_xset) = mi_bchunk_setN (chunks bitmap ! chunk_idx) cidx n;
                bitmap1 = bitmap\<lparr>chunks := (chunks bitmap)[chunk_idx := c']\<rparr>
            in (allclear, mi_bitmap_chunkmap_set bitmap1 chunk_idx, Some already_xset))
         else
           (let (allset, c', already_clear) = mi_bchunk_clearN (chunks bitmap ! chunk_idx) cidx n;
                bitmap1 = bitmap\<lparr>chunks := (chunks bitmap)[chunk_idx := c']\<rparr>
            in (allset,
                if already_clear < n then snd (mi_bitmap_chunkmap_try_clear bitmap1 chunk_idx)
                else bitmap1,
                Some already_clear)))"

definition mi_bitmap_xsetN ::
  "bool \<Rightarrow> mi_bitmap_t \<Rightarrow> nat \<Rightarrow> nat \<Rightarrow> bool \<times> mi_bitmap_t \<times> nat option" where
  "mi_bitmap_xsetN is_set bitmap idx n =
     (if n = 1 then (let (r, bitmap') = mi_bitmap_xset is_set bitmap idx in (r, bitmap', None))
      else if n = 8 then (let (r, bitmap') = mi_bitmap_xset8 is_set bitmap idx in (r, bitmap', None))
      else if n = MI_BFIELD_BITS
      then (let (r, bitmap') = mi_bitmap_xsetX is_set bitmap idx in (r, bitmap', None))
      else mi_bitmap_xsetN' is_set bitmap idx n)"

section \<open>Cyclic iteration and the finder\<close>

text \<open>The macro \<^verbatim>\<open>mi_bfield_iterate\<close> runs its body once for every value of \<open>name_idx\<close>.
  The loop state (\<open>_b\<close>, \<open>_bcount\<close>) depends on the local \<open>bfield\<close> only, not on the body,
  so the macro is embedded as the list of the indices in the order in which it produces
  them; a body that returns leaves the rest of the list unvisited.  The source asserts that
  every scan finds a bit (\<open>_found\<close>); the list ends where a scan would not.\<close>

fun mi_bfield_iterate_loop :: "mi_bfield_t \<Rightarrow> mi_bfield_t \<Rightarrow> nat \<Rightarrow> mi_bfield_t \<Rightarrow> nat list" where
  "mi_bfield_iterate_loop bfield cycle_mask 0 b = []"
| "mi_bfield_iterate_loop bfield cycle_mask (Suc bcount) b =
     (let b1 = (if b = 0 then bfield AND NOT cycle_mask else b)
      in case mi_bfield_find_least_bit b1 of
           Some name_idx \<Rightarrow>
             name_idx # mi_bfield_iterate_loop bfield cycle_mask bcount (mi_bfield_clear_least_bit b1)
         | None \<Rightarrow> [])"

definition mi_bfield_iterate :: "mi_bfield_t \<Rightarrow> nat \<Rightarrow> nat \<Rightarrow> nat list" where
  "mi_bfield_iterate bfield start cycle =
     (let cycle_mask = mi_bfield_mask (cycle - start) start;
          bcount = mi_bfield_popcount bfield;
          b = bfield AND cycle_mask
      in mi_bfield_iterate_loop bfield cycle_mask bcount b)"

text \<open>The three assertions at the head of \<^verbatim>\<open>mi_bfield_iterate\<close>.\<close>

definition mi_bfield_iterate_asserts :: "nat \<Rightarrow> nat \<Rightarrow> bool" where
  "mi_bfield_iterate_asserts start cycle \<longleftrightarrow>
     start \<le> cycle \<and> start < MI_BFIELD_BITS \<and> cycle < MI_BFIELD_BITS"

text \<open>\<^verbatim>\<open>(uint32_t)(tseq) % (uint32_t)(cycle)\<close>: the thread sequence number \<open>tseq\<close> is a
  \<^verbatim>\<open>size_t\<close>; both operands are cut to 32 bits.\<close>

definition mi_bfield_cycle_start :: "64 word \<Rightarrow> nat \<Rightarrow> nat" where
  "mi_bfield_cycle_start tseq cycle = unat ((ucast tseq :: 32 word) mod (of_nat cycle :: 32 word))"

definition mi_bfield_cycle_iterate :: "mi_bfield_t \<Rightarrow> 64 word \<Rightarrow> nat \<Rightarrow> nat list" where
  "mi_bfield_cycle_iterate bfield tseq cycle =
     (let start = mi_bfield_cycle_start tseq cycle
      in mi_bfield_iterate bfield start cycle)"

text \<open>\<^verbatim>\<open>mi_bitmap_find\<close> takes a visitor \<open>on_find\<close> with two opaque arguments.  The visitor
  is a function on the state it can reach: the bitmap, paired with the state \<open>'w\<close> behind
  its opaque arguments.  It answers \<open>Some idx\<close> for true with \<^verbatim>\<open>*pidx = idx\<close>.\<close>

type_synonym 'w mi_bitmap_visit_fun_t =
  "mi_bitmap_t \<times> 'w \<Rightarrow> nat \<Rightarrow> nat \<Rightarrow> nat option \<times> (mi_bitmap_t \<times> 'w)"

text \<open>The parameters of the inner iteration for the chunkmap entry \<open>cmap_idx\<close>.\<close>

definition mi_bitmap_find_cmap_entry_cycle :: "nat \<Rightarrow> nat \<Rightarrow> nat \<Rightarrow> nat" where
  "mi_bitmap_find_cmap_entry_cycle cmap_idx cmap_acc cmap_acc_bits =
     (if cmap_idx \<noteq> cmap_acc then MI_BFIELD_BITS else cmap_acc_bits)"

fun mi_bitmap_find_inner ::
  "'w mi_bitmap_visit_fun_t \<Rightarrow> mi_bitmap_t \<times> 'w \<Rightarrow> nat \<Rightarrow> nat \<Rightarrow> nat list
     \<Rightarrow> nat option \<times> (mi_bitmap_t \<times> 'w)" where
  "mi_bitmap_find_inner on_find st n cmap_idx [] = (None, st)"
| "mi_bitmap_find_inner on_find st n cmap_idx (eidx # eidxs) =
     (let chunk_idx = cmap_idx * MI_BFIELD_BITS + eidx
      in case on_find st chunk_idx n of
           (Some idx, st') \<Rightarrow> (Some idx, st')
         | (None, st') \<Rightarrow> mi_bitmap_find_inner on_find st' n cmap_idx eidxs)"

fun mi_bitmap_find_outer ::
  "'w mi_bitmap_visit_fun_t \<Rightarrow> mi_bitmap_t \<times> 'w \<Rightarrow> 64 word \<Rightarrow> nat \<Rightarrow> nat \<Rightarrow> nat \<Rightarrow> nat list
     \<Rightarrow> nat option \<times> (mi_bitmap_t \<times> 'w)" where
  "mi_bitmap_find_outer on_find st tseq n cmap_acc cmap_acc_bits [] = (None, st)"
| "mi_bitmap_find_outer on_find st tseq n cmap_acc cmap_acc_bits (cmap_idx # cmap_idxs) =
     (let cmap_entry = chunkmap (fst st) ! cmap_idx;
          cmap_entry_cycle = mi_bitmap_find_cmap_entry_cycle cmap_idx cmap_acc cmap_acc_bits
      in case mi_bitmap_find_inner on_find st n cmap_idx
                (mi_bfield_cycle_iterate cmap_entry tseq cmap_entry_cycle) of
           (Some idx, st') \<Rightarrow> (Some idx, st')
         | (None, st') \<Rightarrow>
             mi_bitmap_find_outer on_find st' tseq n cmap_acc cmap_acc_bits cmap_idxs)"

definition mi_bitmap_find ::
  "mi_bitmap_t \<times> 'w \<Rightarrow> 64 word \<Rightarrow> nat \<Rightarrow> 'w mi_bitmap_visit_fun_t \<Rightarrow> nat option \<times> (mi_bitmap_t \<times> 'w)" where
  "mi_bitmap_find st tseq n on_find =
     (let cmap_max_count = mi_divide_up (mi_bitmap_chunk_count (fst st)) MI_BFIELD_BITS;
          chunk_acc = chunk_max_accessed (fst st);
          cmap_acc = chunk_acc div MI_BFIELD_BITS;
          cmap_acc_bits = 1 + (chunk_acc mod MI_BFIELD_BITS);
          cmap_mask = mi_bfield_mask cmap_max_count 0;
          cmap_cycle = cmap_acc + 1
      in mi_bitmap_find_outer on_find st tseq n cmap_acc cmap_acc_bits
           (mi_bfield_cycle_iterate cmap_mask tseq cmap_cycle))"

subsection \<open>Find and clear on the bitmap\<close>

definition mi_bitmap_try_find_and_clear_visit ::
  "(mi_bchunk_t \<Rightarrow> nat \<Rightarrow> nat option \<times> mi_bchunk_t) \<Rightarrow> unit mi_bitmap_visit_fun_t" where
  "mi_bitmap_try_find_and_clear_visit try_find_and_clear st chunk_idx n =
     (let bitmap = fst st
      in case try_find_and_clear (chunks bitmap ! chunk_idx) n of
           (Some cidx, c') \<Rightarrow>
             (Some (chunk_idx * MI_BCHUNK_BITS + cidx),
              (bitmap\<lparr>chunks := (chunks bitmap)[chunk_idx := c']\<rparr>, ()))
         | (None, c') \<Rightarrow>
             (let bitmap1 = bitmap\<lparr>chunks := (chunks bitmap)[chunk_idx := c']\<rparr>
              in (None, (snd (mi_bitmap_chunkmap_try_clear bitmap1 chunk_idx), ()))))"

definition mi_bitmap_try_find_and_clear_generic ::
  "mi_bitmap_t \<Rightarrow> 64 word \<Rightarrow> nat \<Rightarrow> (mi_bchunk_t \<Rightarrow> nat \<Rightarrow> nat option \<times> mi_bchunk_t)
     \<Rightarrow> nat option \<times> mi_bitmap_t" where
  "mi_bitmap_try_find_and_clear_generic bitmap tseq n try_find_and_clear =
     (let (r, st') = mi_bitmap_find (bitmap, ()) tseq n
                       (mi_bitmap_try_find_and_clear_visit try_find_and_clear)
      in (r, fst st'))"

definition mi_bitmap_try_find_and_clear :: "mi_bitmap_t \<Rightarrow> 64 word \<Rightarrow> nat option \<times> mi_bitmap_t" where
  "mi_bitmap_try_find_and_clear bitmap tseq =
     mi_bitmap_try_find_and_clear_generic bitmap tseq 1 mi_bchunk_try_find_and_clear_1"

definition mi_bitmap_try_find_and_clear8 :: "mi_bitmap_t \<Rightarrow> 64 word \<Rightarrow> nat option \<times> mi_bitmap_t" where
  "mi_bitmap_try_find_and_clear8 bitmap tseq =
     mi_bitmap_try_find_and_clear_generic bitmap tseq 8 mi_bchunk_try_find_and_clear_8"

definition mi_bitmap_try_find_and_clearX :: "mi_bitmap_t \<Rightarrow> 64 word \<Rightarrow> nat option \<times> mi_bitmap_t" where
  "mi_bitmap_try_find_and_clearX bitmap tseq =
     mi_bitmap_try_find_and_clear_generic bitmap tseq MI_BFIELD_BITS mi_bchunk_try_find_and_clear_X"

definition mi_bitmap_try_find_and_clearNX ::
  "mi_bitmap_t \<Rightarrow> 64 word \<Rightarrow> nat \<Rightarrow> nat option \<times> mi_bitmap_t" where
  "mi_bitmap_try_find_and_clearNX bitmap tseq n =
     mi_bitmap_try_find_and_clear_generic bitmap tseq n mi_bchunk_try_find_and_clearNX"

text \<open>\<^verbatim>\<open>mi_bitmap_try_find_and_clearN_\<close>.\<close>

definition mi_bitmap_try_find_and_clearN' ::
  "mi_bitmap_t \<Rightarrow> 64 word \<Rightarrow> nat \<Rightarrow> nat option \<times> mi_bitmap_t" where
  "mi_bitmap_try_find_and_clearN' bitmap tseq n =
     mi_bitmap_try_find_and_clear_generic bitmap tseq n mi_bchunk_try_find_and_clearN'"

subsection \<open>Find and claim\<close>

text \<open>The claim function is a callback of the arena.  It sees the slice index and the state
  \<open>'w\<close> outside the bitmap (arena, sub-process, heap tag), and answers whether it claimed the
  slice together with the value it leaves in \<^verbatim>\<open>*keep_set\<close>, which the caller sets to true
  before the call.\<close>

type_synonym 'w mi_claim_fun_t = "nat \<Rightarrow> 'w \<Rightarrow> bool \<Rightarrow> bool \<times> bool \<times> 'w"

definition mi_bitmap_try_find_and_claim_visit :: "'w mi_claim_fun_t \<Rightarrow> 'w mi_bitmap_visit_fun_t" where
  "mi_bitmap_try_find_and_claim_visit claim_fun st chunk_idx n =
     (let bitmap = fst st; w = snd st
      in case mi_bchunk_try_find_and_clear (chunks bitmap ! chunk_idx) of
           (Some cidx, c') \<Rightarrow>
             (let bitmap1 = bitmap\<lparr>chunks := (chunks bitmap)[chunk_idx := c']\<rparr>;
                  slice_index = chunk_idx * MI_BCHUNK_BITS + cidx;
                  (claimed, keep_set, w') = claim_fun slice_index w True
              in if claimed then (Some slice_index, (bitmap1, w'))
                 else if keep_set then
                   (let (wasclear, c2) = mi_bchunk_set (chunks bitmap1 ! chunk_idx) cidx
                    in (None, (bitmap1\<lparr>chunks := (chunks bitmap1)[chunk_idx := c2]\<rparr>, w')))
                 else (None, (bitmap1, w')))
         | (None, c') \<Rightarrow>
             (let bitmap1 = bitmap\<lparr>chunks := (chunks bitmap)[chunk_idx := c']\<rparr>
              in (None, (snd (mi_bitmap_chunkmap_try_clear bitmap1 chunk_idx), w))))"

definition mi_bitmap_try_find_and_claim ::
  "mi_bitmap_t \<times> 'w \<Rightarrow> 64 word \<Rightarrow> 'w mi_claim_fun_t \<Rightarrow> nat option \<times> (mi_bitmap_t \<times> 'w)" where
  "mi_bitmap_try_find_and_claim st tseq claim =
     mi_bitmap_find st tseq 1 (mi_bitmap_try_find_and_claim_visit claim)"

subsection \<open>Highest set bit\<close>

fun mi_bitmap_bsr_loop :: "mi_bitmap_t \<Rightarrow> nat \<Rightarrow> nat option" where
  "mi_bitmap_bsr_loop bitmap 0 = None"
| "mi_bitmap_bsr_loop bitmap (Suc i) =
     (let cmap = chunkmap bitmap ! i
      in case mi_bsr cmap of
           Some cmap_idx \<Rightarrow>
             (let chunk_idx = i * MI_BFIELD_BITS + cmap_idx
              in case mi_bchunk_bsr (chunks bitmap ! chunk_idx) of
                   Some cidx \<Rightarrow> Some (chunk_idx * MI_BCHUNK_BITS + cidx)
                 | None \<Rightarrow> mi_bitmap_bsr_loop bitmap i)
         | None \<Rightarrow> mi_bitmap_bsr_loop bitmap i)"

definition mi_bitmap_bsr :: "mi_bitmap_t \<Rightarrow> nat option" where
  "mi_bitmap_bsr bitmap =
     (let chunkmap_max = mi_divide_up (mi_bitmap_chunk_count bitmap) MI_BFIELD_BITS
      in mi_bitmap_bsr_loop bitmap chunkmap_max)"

section \<open>Notions used to state and prove the properties\<close>

text \<open>Bit \<open>i\<close> of a chunk, \<open>0 \<le> i < B\<close>: bit \<open>i mod W\<close> of bfield \<open>i div W\<close>.\<close>

definition mi_bchunk_bit :: "mi_bchunk_t \<Rightarrow> nat \<Rightarrow> bool" where
  "mi_bchunk_bit chunk i = bit (chunk ! (i div MI_BFIELD_BITS)) (i mod MI_BFIELD_BITS)"

text \<open>\<open>xset_committed is_set b m b'\<close>: the try-operation with mask \<open>m\<close> on the bfield value \<open>b\<close>
  succeeds and leaves \<open>b'\<close>.\<close>

definition xset_committed :: "bool \<Rightarrow> mi_bfield_t \<Rightarrow> mi_bfield_t \<Rightarrow> mi_bfield_t \<Rightarrow> bool" where
  "xset_committed is_set b m b' \<longleftrightarrow>
     fst (mi_bfield_atomic_try_xset_mask is_set b m) \<and>
     fst (snd (mi_bfield_atomic_try_xset_mask is_set b m)) = b'"

text \<open>The bits of bfield \<open>f\<close> that belong to the run of \<open>n\<close> bits from chunk index \<open>cidx\<close>.\<close>

definition range_mask :: "nat \<Rightarrow> nat \<Rightarrow> nat \<Rightarrow> mi_bfield_t" where
  "range_mask cidx n f =
     (let lo = max cidx (64 * f); hi = min (cidx + n) (64 * f + 64)
      in if lo < hi then mi_bfield_mask (hi - lo) (lo - 64 * f) else 0)"

section \<open>Basic facts on the bits of a bfield\<close>

lemma bit64: "bit w j \<Longrightarrow> j < 64" for w :: mi_bfield_t
  by (drule bit_imp_le_length) simp

lemma and_eq_zero_bits: "(b AND m) = 0 \<longleftrightarrow> (\<forall>j. bit m j \<longrightarrow> \<not> bit b j)" for b m :: mi_bfield_t
  by (auto simp: bit_eq_iff bit_and_iff) (metis bit64)

lemma and_eq_mask_bits: "(b AND m) = m \<longleftrightarrow> (\<forall>j. bit m j \<longrightarrow> bit b j)" for b m :: mi_bfield_t
  by (auto simp: bit_eq_iff bit_and_iff) (metis bit64)

section \<open>Set bits of a bfield and the order of the cyclic iteration\<close>

lemma clear_least_bit_bit:
  assumes "b \<noteq> 0"
  shows "bit (mi_bfield_clear_least_bit b) j \<longleftrightarrow> bit b j \<and> j \<noteq> mi_ctz b"
proof -
  define k where "k = mi_ctz b"
  define p :: mi_bfield_t where "p = push_bit (k + 1) (drop_bit (k + 1) b)"
  define e :: mi_bfield_t where "e = push_bit k 1"
  have kb: "bit b k" and k64: "k < 64" using mi_ctz_bit [OF assms] by (simp_all add: k_def)
  have low: "\<not> bit b i" if "i < k" for i using that mi_ctz_least [of i b] by (simp add: k_def)
  have ge: "k \<le> i" if "bit b i" for i using that low [of i] by (cases "i < k") auto
  have bp: "bit p i \<longleftrightarrow> k < i \<and> bit b i" for i
    unfolding p_def bit_push_bit_iff bit_drop_bit_eq
    using bit_imp_le_length [of b i] by (auto simp: possible_bit_word)
  have be: "bit e i \<longleftrightarrow> i = k" for i
    unfolding e_def bit_push_bit_iff using k64 by (auto simp: bit_1_iff possible_bit_word)
  have bmask: "bit (mask k :: mi_bfield_t) i \<longleftrightarrow> i < k" for i
    using k64 by (auto simp: bit_mask_iff possible_bit_word)
  have gt: "k < i" if "bit b i" "i \<noteq> k" for i using ge [OF that(1)] that(2) by simp
  have b_or: "b = p OR e"
    by (rule bit_eqI) (use gt kb in \<open>auto simp: bit_or_iff bp be\<close>)
  have "p AND e = 0"
    by (rule bit_eqI) (auto simp: bit_and_iff bp be)
  then have b_add: "b = p + e"
    using b_or disjunctive_add_eq_or [of p e] by simp
  have "e - 1 = mask k"
    by (simp add: e_def mask_eq_exp_minus_1 push_bit_eq_mult)
  then have "b - 1 = p + mask k"
    by (subst b_add) simp
  moreover have "p AND mask k = 0"
    by (rule bit_eqI) (auto simp: bit_and_iff bp bmask)
  ultimately have bm1: "b - 1 = p OR mask k"
    using disjunctive_add_eq_or [of p "mask k"] by simp
  have "bit (b AND (b - 1)) j \<longleftrightarrow> bit b j \<and> bit (p OR mask k) j"
    by (simp add: bm1 bit_and_iff)
  also have "\<dots> \<longleftrightarrow> bit b j \<and> j \<noteq> k"
    using gt [of j] by (auto simp: bit_or_iff bp bmask)
  finally show ?thesis by (simp add: mi_bfield_clear_least_bit_def k_def)
qed

lemma set_bits_nonzero:
  assumes "b \<noteq> 0"
  shows "filter (bit b) [0..<64] = mi_ctz b # filter (bit (mi_bfield_clear_least_bit b)) [0..<64]"
proof -
  let ?k = "mi_ctz b" and ?c = "mi_bfield_clear_least_bit b"
  have kb: "bit b ?k" and k64: "?k < 64" using mi_ctz_bit [OF assms] by simp_all
  have split: "[0..<64] = [0..<?k] @ ?k # [Suc ?k..<64]"
    using k64 by (metis upt_conv_Cons upt_add_eq_append le0 less_imp_le_nat add_0 le_add_diff_inverse)
  have lo: "filter (bit b) [0..<?k] = []" "filter (bit ?c) [0..<?k] = []"
    using mi_ctz_least [of _ b] by (auto simp: filter_empty_conv clear_least_bit_bit [OF assms])
  have hi: "filter (bit ?c) [Suc ?k..<64] = filter (bit b) [Suc ?k..<64]"
    by (rule filter_cong) (auto simp: clear_least_bit_bit [OF assms])
  have "filter (bit b) [0..<64] = ?k # filter (bit b) [Suc ?k..<64]"
    by (subst split) (simp add: lo kb)
  moreover have "filter (bit ?c) [0..<64] = filter (bit b) [Suc ?k..<64]"
    by (subst split) (simp add: lo hi clear_least_bit_bit [OF assms])
  ultimately show ?thesis by simp
qed

lemma iterate_loop_nonzero:
  "b \<noteq> 0 \<Longrightarrow> mi_bfield_iterate_loop bfield cm (Suc k) b =
     mi_ctz b # mi_bfield_iterate_loop bfield cm k (mi_bfield_clear_least_bit b)"
  by (simp add: mi_bfield_find_least_bit_def mi_bsf_def)

lemma iterate_loop_drain:
  "mi_bfield_iterate_loop bfield cm (mi_popcount b + k) b =
     filter (bit b) [0..<64] @ mi_bfield_iterate_loop bfield cm k 0"
proof (induction "mi_popcount b" arbitrary: b)
  case 0
  then have "filter (bit b) [0..<64] = []" by (simp add: mi_popcount_def)
  then have "b = 0"
    by (intro bit_eqI) (auto simp: filter_empty_conv possible_bit_word)
  then show ?case using 0 by (simp add: mi_popcount_def)
next
  case (Suc n)
  then have nz: "b \<noteq> 0" by (auto simp: mi_popcount_def)
  have "mi_popcount (mi_bfield_clear_least_bit b) = n"
    using Suc(2) set_bits_nonzero [OF nz] by (simp add: mi_popcount_def)
  from Suc(1) [OF this [symmetric]]
  have ih: "mi_bfield_iterate_loop bfield cm (n + k) (mi_bfield_clear_least_bit b) =
        filter (bit (mi_bfield_clear_least_bit b)) [0..<64] @ mi_bfield_iterate_loop bfield cm k 0"
    using \<open>mi_popcount (mi_bfield_clear_least_bit b) = n\<close> by simp
  have "mi_bfield_iterate_loop bfield cm (mi_popcount b + k) b =
        mi_bfield_iterate_loop bfield cm (Suc (n + k)) b"
    by (simp only: Suc(2) [symmetric] add_Suc)
  also have "\<dots> = mi_ctz b # mi_bfield_iterate_loop bfield cm (n + k) (mi_bfield_clear_least_bit b)"
    by (rule iterate_loop_nonzero [OF nz])
  finally show ?case
    by (simp only: ih set_bits_nonzero [OF nz] append_Cons)
qed

lemma iterate_loop_reload:
  "mi_bfield_iterate_loop bfield cm (mi_popcount (bfield AND NOT cm)) 0 =
     filter (bit (bfield AND NOT cm)) [0..<64]"
proof (cases "bfield AND NOT cm = 0")
  case True
  then show ?thesis by (simp add: mi_popcount_def)
next
  case False
  then obtain n where n: "mi_popcount (bfield AND NOT cm) = Suc n"
    using set_bits_nonzero [OF False] by (auto simp: mi_popcount_def)
  have "mi_bfield_iterate_loop bfield cm (Suc n) 0 =
        mi_bfield_iterate_loop bfield cm (Suc n) (bfield AND NOT cm)"
    using False by simp
  also have "\<dots> = filter (bit (bfield AND NOT cm)) [0..<64]"
    using iterate_loop_drain [of bfield cm "bfield AND NOT cm" 0] n by simp
  finally show ?thesis using n by simp
qed

lemma popcount_split:
  "mi_popcount b = mi_popcount (b AND m) + mi_popcount (b AND NOT m)"
proof -
  have "length (filter (bit b) xs) =
        length (filter (bit (b AND m)) xs) + length (filter (bit (b AND NOT m)) xs)" for xs
    by (induction xs) (auto simp: bit_and_iff bit_not_iff dest: bit_imp_le_length)
  then show ?thesis by (simp add: mi_popcount_def)
qed

lemma iterate_two_arms:
  "mi_bfield_iterate bfield start cycle =
     (let cm = mi_bfield_mask (cycle - start) start
      in filter (bit (bfield AND cm)) [0..<64] @ filter (bit (bfield AND NOT cm)) [0..<64])"
  unfolding mi_bfield_iterate_def Let_def mi_bfield_popcount_def
  by (subst popcount_split [of bfield "mi_bfield_mask (cycle - start) start"])
     (simp add: iterate_loop_drain iterate_loop_reload)


lemma mi_bfield_mask_bit:
  assumes "shiftl + bit_count \<le> 64"
  shows "bit (mi_bfield_mask bit_count shiftl) j \<longleftrightarrow> shiftl \<le> j \<and> j < shiftl + bit_count"
proof (cases "bit_count < 64")
  case True
  have "push_bit bit_count (1 :: mi_bfield_t) - 1 = mask bit_count"
    by (simp add: mask_eq_exp_minus_1 push_bit_eq_mult)
  then have "mi_bfield_mask bit_count shiftl = push_bit shiftl (mask bit_count)"
    using True by (simp add: mi_bfield_mask_def MI_BFIELD_BITS_def mi_bfield_one_def)
  then show ?thesis
    using assms by (auto simp: bit_push_bit_iff bit_mask_iff possible_bit_word)
next
  case False
  with assms have "bit_count = 64" "shiftl = 0" by simp_all
  then show ?thesis
    by (auto simp: mi_bfield_mask_def MI_BFIELD_BITS_def mi_bfield_all_set_def bit_not_iff
          possible_bit_word)
qed

lemma cycle_start_less:
  assumes "0 < cycle" and "cycle \<le> 64"
  shows "mi_bfield_cycle_start tseq cycle < cycle"
proof -
  have "unat (of_nat cycle :: 32 word) = cycle"
    using assms by (simp add: unat_of_nat take_bit_nat_eq_self)
  then have "unat ((ucast tseq :: 32 word) mod of_nat cycle) = unat (ucast tseq :: 32 word) mod cycle"
    by (simp add: unat_mod)
  then show ?thesis using assms by (simp add: mi_bfield_cycle_start_def)
qed

section \<open>The all-or-nothing ranged operation\<close>

lemma try_xset_mask_cases:
  "mi_bfield_atomic_try_xset_mask is_set b m = (ok, b', fic) \<Longrightarrow>
     (if ok then xset_committed is_set b m b' else b' = b)"
  by (auto simp: xset_committed_def mi_bfield_atomic_try_xset_mask_def
        mi_bfield_atomic_try_set_mask_def mi_bfield_atomic_try_clear_mask_def Let_def
        split: if_splits)

lemma xset_committed_bits:
  assumes "xset_committed is_set b m b'"
  shows "bit m j \<Longrightarrow> bit b j = (\<not> is_set) \<and> bit b' j = is_set"
    and "\<not> bit m j \<Longrightarrow> bit b' j = bit b j"
  using assms
  by (auto simp: xset_committed_def mi_bfield_atomic_try_xset_mask_def
        mi_bfield_atomic_try_set_mask_def mi_bfield_atomic_try_clear_mask_def Let_def
        and_eq_zero_bits and_eq_mask_bits bit_or_iff bit_and_iff bit_not_iff
        split: if_splits intro: bit64)

lemma xset_committed_undo:
  assumes "xset_committed is_set b m b'"
  shows "fst (snd (mi_bfield_atomic_xset_mask (\<not> is_set) b' m)) = b"
proof (rule bit_eqI)
  fix j
  show "bit (fst (snd (mi_bfield_atomic_xset_mask (\<not> is_set) b' m))) j = bit b j"
    using xset_committed_bits [OF assms, of j]
    by (cases "bit m j"; cases is_set)
       (auto simp: mi_bfield_atomic_xset_mask_def mi_bfield_atomic_set_mask_def
          mi_bfield_atomic_clear_mask_def Let_def bit_or_iff bit_and_iff bit_not_iff
          intro: bit64)
qed


lemma restore_props:
  "field \<le> length chunk \<Longrightarrow>
   length (mi_bchunk_try_xsetN_restore is_set chunk field sf ef ms mm me) = length chunk \<and>
   (\<forall>f < length chunk.
      mi_bchunk_try_xsetN_restore is_set chunk field sf ef ms mm me ! f =
        (if sf \<le> f \<and> f < field
         then fst (snd (mi_bfield_atomic_xset_mask (\<not> is_set) (chunk ! f)
                          (if f = sf then ms else if f = ef then me else mm)))
         else chunk ! f))"
proof (induction is_set chunk field sf ef ms mm me rule: mi_bchunk_try_xsetN_restore.induct)
  case (1 is_set chunk field sf ef ms mm me)
  show ?case
  proof (cases "field > sf")
    case False
    then show ?thesis by (subst (1 2) mi_bchunk_try_xsetN_restore.simps) auto
  next
    case True
    define msk where "msk = (if field - 1 = sf then ms else if field - 1 = ef then me else mm)"
    define b' where "b' = fst (snd (mi_bfield_atomic_xset_mask (\<not> is_set) (chunk ! (field - 1)) msk))"
    have step: "mi_bchunk_try_xsetN_restore is_set chunk field sf ef ms mm me =
        mi_bchunk_try_xsetN_restore is_set (chunk[field - 1 := b']) (field - 1) sf ef ms mm me"
      using True
      by (subst mi_bchunk_try_xsetN_restore.simps)
         (simp add: Let_def split_beta msk_def b'_def)
    have ih: "length (mi_bchunk_try_xsetN_restore is_set (chunk[field - 1 := b']) (field - 1) sf ef ms mm me)
          = length (chunk[field - 1 := b']) \<and>
        (\<forall>f < length (chunk[field - 1 := b']).
          mi_bchunk_try_xsetN_restore is_set (chunk[field - 1 := b']) (field - 1) sf ef ms mm me ! f =
          (if sf \<le> f \<and> f < field - 1
           then fst (snd (mi_bfield_atomic_xset_mask (\<not> is_set) (chunk[field - 1 := b'] ! f)
                            (if f = sf then ms else if f = ef then me else mm)))
           else chunk[field - 1 := b'] ! f))"
      using "1.IH" [OF True refl refl, of "mi_bfield_atomic_xset_mask (\<not> is_set) (chunk ! (field - 1)) msk"
          "fst (mi_bfield_atomic_xset_mask (\<not> is_set) (chunk ! (field - 1)) msk)"
          "snd (mi_bfield_atomic_xset_mask (\<not> is_set) (chunk ! (field - 1)) msk)"
          b' "snd (snd (mi_bfield_atomic_xset_mask (\<not> is_set) (chunk ! (field - 1)) msk))"]
        "1.prems" True
      by (simp add: msk_def b'_def)
    show ?thesis
      unfolding step using ih True "1.prems"
      by (auto simp: nth_list_update msk_def b'_def)
  qed
qed


lemma mid_props:
  "mi_bchunk_try_xsetN_mid is_set chunk field n mm mac = (ok, chunk', field', n', mm', mac') \<Longrightarrow>
   (field + 1) * 64 + n \<le> length chunk * 64 \<Longrightarrow>
   length chunk' = length chunk \<and>
   (\<forall>f. f \<le> field \<or> field' < f \<longrightarrow> chunk' ! f = chunk ! f) \<and>
   (field < field' \<longrightarrow> mm' = mi_bfield_all_set) \<and>
   (field' = field \<longrightarrow> mm' = mm) \<and>
   (ok \<longrightarrow> n' < 64 \<and> (field' + 1) * 64 + n' = (field + 1) * 64 + n \<and>
      (\<forall>f. field < f \<and> f \<le> field' \<longrightarrow>
         xset_committed is_set (chunk ! f) mi_bfield_all_set (chunk' ! f))) \<and>
   (\<not> ok \<longrightarrow> field < field' \<and> field' * 64 + 64 \<le> (field + 1) * 64 + n \<and>
      chunk' ! field' = chunk ! field' \<and>
      (\<forall>f. field < f \<and> f < field' \<longrightarrow>
         xset_committed is_set (chunk ! f) mi_bfield_all_set (chunk' ! f)))"
proof (induction is_set chunk field n mm mac rule: mi_bchunk_try_xsetN_mid.induct)
  case (1 is_set chunk field n mm mac)
  show ?case
  proof (cases "n \<ge> 64")
    case False
    then show ?thesis
      using "1.prems" by (subst (asm) mi_bchunk_try_xsetN_mid.simps) (auto simp: MI_BFIELD_BITS_def)
  next
    case True
    obtain ok1 b1 fic1 where t: "mi_bfield_atomic_try_xset_mask is_set (chunk ! (field + 1)) mi_bfield_all_set = (ok1, b1, fic1)"
      by (cases "mi_bfield_atomic_try_xset_mask is_set (chunk ! (field + 1)) mi_bfield_all_set") auto
    have inr: "field + 1 < length chunk" using "1.prems"(2) True by simp
    show ?thesis
    proof (cases ok1)
      case False
      then have r: "ok = False" "chunk' = chunk[field + 1 := b1]" "field' = field + 1" "n' = n"
          "mm' = mi_bfield_all_set"
        using "1.prems"(1) True t
        by (subst (asm) mi_bchunk_try_xsetN_mid.simps; auto simp: MI_BFIELD_BITS_def Let_def)+
      have "b1 = chunk ! (field + 1)" using try_xset_mask_cases [OF t] False by simp
      then show ?thesis using True inr unfolding r by auto
    next
      case ok1: True
      have rec: "mi_bchunk_try_xsetN_mid is_set (chunk[field + 1 := b1]) (field + 1) (n - MI_BFIELD_BITS)
                   mi_bfield_all_set (mac \<and> fic1) = (ok, chunk', field', n', mm', mac')"
        using "1.prems"(1) True t ok1
        by (subst (asm) mi_bchunk_try_xsetN_mid.simps) (simp add: MI_BFIELD_BITS_def Let_def)
      have c1: "xset_committed is_set (chunk ! (field + 1)) mi_bfield_all_set b1"
        using try_xset_mask_cases [OF t] ok1 by simp
      have pre: "(field + 1 + 1) * 64 + (n - MI_BFIELD_BITS) \<le> length (chunk[field + 1 := b1]) * 64"
        using "1.prems"(2) True by (simp add: MI_BFIELD_BITS_def)
      have tt: "MI_BFIELD_BITS \<le> n" using True by (simp add: MI_BFIELD_BITS_def)
      note ih = "1.IH" [OF tt refl refl t [symmetric] refl refl _ rec pre]
      have ih': "length chunk' = length chunk \<and>
         (\<forall>f. f \<le> field + 1 \<or> field' < f \<longrightarrow> chunk' ! f = chunk[field + 1 := b1] ! f) \<and>
         (field + 1 < field' \<longrightarrow> mm' = mi_bfield_all_set) \<and>
         (field' = field + 1 \<longrightarrow> mm' = mi_bfield_all_set) \<and>
         (ok \<longrightarrow> n' < 64 \<and> (field' + 1) * 64 + n' = (field + 1 + 1) * 64 + (n - MI_BFIELD_BITS) \<and>
           (\<forall>f. field + 1 < f \<and> f \<le> field' \<longrightarrow>
              xset_committed is_set (chunk[field + 1 := b1] ! f) mi_bfield_all_set (chunk' ! f))) \<and>
         (\<not> ok \<longrightarrow> field + 1 < field' \<and> field' * 64 + 64 \<le> (field + 1 + 1) * 64 + (n - MI_BFIELD_BITS) \<and>
           chunk' ! field' = chunk[field + 1 := b1] ! field' \<and>
           (\<forall>f. field + 1 < f \<and> f < field' \<longrightarrow>
              xset_committed is_set (chunk[field + 1 := b1] ! f) mi_bfield_all_set (chunk' ! f)))"
        using ih ok1 by simp
      have ge: "field + 1 \<le> field'"
        using ih' by (cases ok) auto
      have at1: "chunk' ! (field + 1) = b1"
        using ih' inr by simp
      have len: "length chunk' = length chunk" using ih' by simp
      have unch: "\<forall>f. f \<le> field \<or> field' < f \<longrightarrow> chunk' ! f = chunk ! f"
        using ih' ge by (auto simp: nth_list_update)
      have mm1: "field < field' \<longrightarrow> mm' = mi_bfield_all_set"
        using ih' ge by (cases "field' = field + 1") auto
      have mm2: "field' = field \<longrightarrow> mm' = mm" using ge by simp
      have okc: "ok \<longrightarrow> n' < 64 \<and> (field' + 1) * 64 + n' = (field + 1) * 64 + n \<and>
          (\<forall>f. field < f \<and> f \<le> field' \<longrightarrow>
             xset_committed is_set (chunk ! f) mi_bfield_all_set (chunk' ! f))"
      proof
        assume ok
        have "xset_committed is_set (chunk ! f) mi_bfield_all_set (chunk' ! f)"
          if "field < f" "f \<le> field'" for f
        proof (cases "f = field + 1")
          case True then show ?thesis using c1 at1 by simp
        next
          case False
          then have "field + 1 < f" using that by simp
          then show ?thesis using ih' \<open>ok\<close> that by (auto simp: nth_list_update)
        qed
        then show "n' < 64 \<and> (field' + 1) * 64 + n' = (field + 1) * 64 + n \<and>
          (\<forall>f. field < f \<and> f \<le> field' \<longrightarrow>
             xset_committed is_set (chunk ! f) mi_bfield_all_set (chunk' ! f))"
          using ih' \<open>ok\<close> True by (simp add: MI_BFIELD_BITS_def)
      qed
      have nokc: "\<not> ok \<longrightarrow> field < field' \<and> field' * 64 + 64 \<le> (field + 1) * 64 + n \<and>
          chunk' ! field' = chunk ! field' \<and>
          (\<forall>f. field < f \<and> f < field' \<longrightarrow>
             xset_committed is_set (chunk ! f) mi_bfield_all_set (chunk' ! f))"
      proof
        assume nok: "\<not> ok"
        have "xset_committed is_set (chunk ! f) mi_bfield_all_set (chunk' ! f)"
          if "field < f" "f < field'" for f
        proof (cases "f = field + 1")
          case True then show ?thesis using c1 at1 by simp
        next
          case False
          then have "field + 1 < f" using that by simp
          then show ?thesis using ih' nok that by (auto simp: nth_list_update)
        qed
        then show "field < field' \<and> field' * 64 + 64 \<le> (field + 1) * 64 + n \<and>
          chunk' ! field' = chunk ! field' \<and>
          (\<forall>f. field < f \<and> f < field' \<longrightarrow>
             xset_committed is_set (chunk ! f) mi_bfield_all_set (chunk' ! f))"
          using ih' nok True by (auto simp: MI_BFIELD_BITS_def nth_list_update)
      qed
      from len unch mm1 mm2 okc nokc show ?thesis by blast
    qed
  qed
qed


lemma range_mask_bit:
  "bit (range_mask cidx n f) j \<longleftrightarrow> j < 64 \<and> cidx \<le> 64 * f + j \<and> 64 * f + j < cidx + n"
proof -
  let ?lo = "max cidx (64 * f)" and ?hi = "min (cidx + n) (64 * f + 64)"
  show ?thesis
  proof (cases "?lo < ?hi")
    case True
    then have "(?lo - 64 * f) + (?hi - ?lo) \<le> 64" by auto
    from mi_bfield_mask_bit [OF this, of j] True show ?thesis
      unfolding range_mask_def Let_def by auto
  next
    case False
    then show ?thesis unfolding range_mask_def Let_def by auto
  qed
qed

lemma mask_eq_range_mask:
  assumes "\<And>j. j < 64 \<Longrightarrow> bit m j \<longleftrightarrow> cidx \<le> 64 * f + j \<and> 64 * f + j < cidx + n"
  shows "m = range_mask cidx n f"
  by (rule bit_eqI) (use assms bit64 in \<open>auto simp: range_mask_bit\<close>)

lemma xset_committed_zero: "xset_committed is_set b 0 b"
  by (simp add: xset_committed_def mi_bfield_atomic_try_xset_mask_def
        mi_bfield_atomic_try_set_mask_def mi_bfield_atomic_try_clear_mask_def Let_def)


lemma try_xsetN_char:
  assumes len: "length chunk = 8" and n: "0 < n" and rng: "cidx + n \<le> 512"
    and res: "mi_bchunk_try_xsetN is_set chunk cidx n = (ok, chunk', mac)"
  shows "length chunk' = 8 \<and> (\<not> ok \<longrightarrow> chunk' = chunk) \<and>
         (ok \<longrightarrow> (\<forall>f < 8. xset_committed is_set (chunk ! f) (range_mask cidx n f) (chunk' ! f)))"
proof -
  define sf where "sf = cidx div 64"
  define si where "si = cidx mod 64"
  define m where "m = (if 64 - si > n then n else 64 - si)"
  define ms where "ms = mi_bfield_mask m si"
  have cidx: "cidx = 64 * sf + si" and si: "si < 64" by (simp_all add: sf_def si_def)
  have sf8: "sf < 8" using rng n cidx si by simp
  have m: "0 < m" "si + m \<le> 64" "m \<le> n" using si n by (auto simp: m_def)
  have ms: "ms = range_mask cidx n sf"
  proof (rule mask_eq_range_mask)
    fix j assume "j < (64::nat)"
    then show "bit ms j \<longleftrightarrow> cidx \<le> 64 * sf + j \<and> 64 * sf + j < cidx + n"
      using mi_bfield_mask_bit [of si m j] m cidx by (auto simp: ms_def m_def split: if_splits)
  qed
  obtain ok1 b1 fic1 where t1: "mi_bfield_atomic_try_xset_mask is_set (chunk ! sf) ms = (ok1, b1, fic1)"
    by (cases "mi_bfield_atomic_try_xset_mask is_set (chunk ! sf) ms") auto
  note unf = mi_bchunk_try_xsetN_def Let_def MI_BFIELD_BITS_def MI_BCHUNK_FIELDS_def
    sf_def [symmetric] si_def [symmetric] m_def [symmetric] ms_def [symmetric]
  show ?thesis
  proof (cases ok1)
    case False
    then have "ok = False" "chunk' = chunk[sf := b1]"
      using res n t1 by (auto simp: unf)
    moreover have "b1 = chunk ! sf" using try_xset_mask_cases [OF t1] False by simp
    ultimately show ?thesis using len by simp
  next
    case ok1: True
    define chunk1 where "chunk1 = chunk[sf := b1]"
    have c1: "xset_committed is_set (chunk ! sf) ms b1"
      using try_xset_mask_cases [OF t1] ok1 by simp
    have len1: "length chunk1 = 8" by (simp add: chunk1_def len)
    show ?thesis
    proof (cases "n - m = 0")
      case True
      then have r: "ok = True" "chunk' = chunk1"
        using res n t1 ok1 by (auto simp: unf chunk1_def)
      have nm: "n = m" using True m by simp
      have "xset_committed is_set (chunk ! f) (range_mask cidx n f) (chunk' ! f)" if "f < 8" for f
      proof (cases "f = sf")
        case True
        then show ?thesis using c1 ms r len that by (simp add: chunk1_def)
      next
        case False
        have "range_mask cidx n f = 0"
          by (rule bit_eqI) (use False nm m cidx si in \<open>auto simp: range_mask_bit\<close>)
        then show ?thesis using False r by (simp add: chunk1_def xset_committed_zero)
      qed
      then show ?thesis using r len1 by simp
    next
      case n1: False
      have m64: "m = 64 - si" using n1 m by (auto simp: m_def split: if_splits)
      have pos: "(sf + 1) * 64 + (n - m) = cidx + n" using m64 cidx si m by simp
      obtain ok2 chunk2 field2 n2 mm2 mac2 where
        mid: "mi_bchunk_try_xsetN_mid is_set chunk1 sf (n - m) 0 fic1 =
                (ok2, chunk2, field2, n2, mm2, mac2)"
        by (metis prod_cases3)
      have pre: "(sf + 1) * 64 + (n - m) \<le> length chunk1 * 64" using pos rng len1 by simp
      note mp = mid_props [OF mid pre]
      have len2: "length chunk2 = 8" using mp len1 by simp
      have unch2: "chunk2 ! f = chunk1 ! f" if "f \<le> sf \<or> field2 < f" for f using mp that by blast
      have at_sf: "chunk2 ! sf = b1" using unch2 [of sf] len sf8 by (simp add: chunk1_def)
      have other1: "chunk1 ! f = chunk ! f" if "f \<noteq> sf" for f using that by (simp add: chunk1_def)
      have undo_sf: "fst (snd (mi_bfield_atomic_xset_mask (\<not> is_set) b1 ms)) = chunk ! sf"
        using xset_committed_undo [OF c1] .
      have full: "mi_bfield_all_set = range_mask cidx n f" if "sf < f" "64 * f + 64 \<le> cidx + n" for f
      proof (rule mask_eq_range_mask)
        fix j assume "j < (64::nat)"
        then show "bit mi_bfield_all_set j \<longleftrightarrow> cidx \<le> 64 * f + j \<and> 64 * f + j < cidx + n"
          using that cidx si by (auto simp: mi_bfield_all_set_def bit_not_iff)
      qed
      have before: "range_mask cidx n f = 0" if "f < sf" for f
        by (rule bit_eqI) (use that cidx si in \<open>auto simp: range_mask_bit\<close>)
      show ?thesis
      proof (cases ok2)
        case False
        have r: "ok = False" "chunk' = mi_bchunk_try_xsetN_restore is_set chunk2 field2 sf 8 ms mm2 0"
          using res n t1 ok1 n1 mid [unfolded chunk1_def] False by (auto simp: unf)
        from mp False have f2: "sf < field2" "field2 * 64 + 64 \<le> (sf + 1) * 64 + (n - m)"
          and at2: "chunk2 ! field2 = chunk1 ! field2"
          and com: "\<And>f. sf < f \<Longrightarrow> f < field2 \<Longrightarrow>
                 xset_committed is_set (chunk1 ! f) mi_bfield_all_set (chunk2 ! f)"
          and mm2: "mm2 = mi_bfield_all_set"
          by auto
        have f28: "field2 < 8" using f2 pos rng by simp
        then have "field2 \<le> length chunk2" using len2 by simp
        note rp = restore_props [OF this, of is_set sf 8 ms mm2 0]
        have "chunk' = chunk"
        proof (rule nth_equalityI)
          show "length chunk' = length chunk" using rp r len2 len by simp
        next
          fix f assume "f < length chunk'"
          then have f8: "f < 8" using rp r len2 by simp
          consider "f = sf" | "sf < f" "f < field2" | "f < sf \<or> field2 \<le> f" by linarith
          then show "chunk' ! f = chunk ! f"
          proof cases
            case 1
            then show ?thesis using rp r len2 f8 f2 at_sf undo_sf by simp
          next
            case 2
            then have "chunk' ! f = fst (snd (mi_bfield_atomic_xset_mask (\<not> is_set) (chunk2 ! f) mi_bfield_all_set))"
              using rp r len2 f8 mm2 by simp
            also have "\<dots> = chunk1 ! f" using xset_committed_undo [OF com [OF 2]] .
            finally show ?thesis using other1 [of f] 2 by simp
          next
            case 3
            then have "chunk' ! f = chunk2 ! f" using rp r len2 f8 by auto
            also have "\<dots> = chunk1 ! f"
              using 3 unch2 [of f] at2 by (cases "f = field2") auto
            finally show ?thesis using other1 [of f] 3 f2 by auto
          qed
        qed
        then show ?thesis using r len by simp
      next
        case ok2: True
        from mp ok2 have n2: "n2 < 64" and pos2: "(field2 + 1) * 64 + n2 = (sf + 1) * 64 + (n - m)"
          and com: "\<And>f. sf < f \<Longrightarrow> f \<le> field2 \<Longrightarrow>
                 xset_committed is_set (chunk1 ! f) mi_bfield_all_set (chunk2 ! f)"
          and mm2: "sf < field2 \<longrightarrow> mm2 = mi_bfield_all_set"
          by auto
        have pos3: "(field2 + 1) * 64 + n2 = cidx + n" using pos2 pos by simp
        have sf2: "sf \<le> field2" using pos2 n2 by arith
        have com': "xset_committed is_set (chunk ! f) (range_mask cidx n f) (chunk2 ! f)"
          if "f \<le> field2" for f
        proof -
          consider "f < sf" | "f = sf" | "sf < f" by linarith
          then show ?thesis
          proof cases
            case 1
            then show ?thesis using before [of f] unch2 [of f] other1 [of f]
              by (simp add: xset_committed_zero)
          next
            case 2
            then show ?thesis using c1 ms at_sf by simp
          next
            case 3
            have "64 * f + 64 \<le> cidx + n" using that pos3 by simp
            from full [OF 3 this] com [OF 3 that] other1 [of f] 3 show ?thesis by simp
          qed
        qed
        show ?thesis
        proof (cases "n2 > 0")
          case False
          then have r: "ok = True" "chunk' = chunk2"
            using res n t1 ok1 n1 mid [unfolded chunk1_def] ok2 by (auto simp: unf)
          have "xset_committed is_set (chunk ! f) (range_mask cidx n f) (chunk2 ! f)" if "f < 8" for f
          proof (cases "f \<le> field2")
            case True then show ?thesis by (rule com')
          next
            case f: False
            have "range_mask cidx n f = 0"
              by (rule bit_eqI) (use f False pos3 in \<open>auto simp: range_mask_bit\<close>)
            moreover have "chunk2 ! f = chunk ! f" using unch2 [of f] other1 [of f] f sf2 by simp
            ultimately show ?thesis by (simp add: xset_committed_zero)
          qed
          then show ?thesis using r len2 by simp
        next
          case n2pos: True
          define field3 where "field3 = field2 + 1"
          define me3 where "me3 = mi_bfield_mask n2 0"
          have f38: "field3 < 8" using pos3 rng n2pos by (simp add: field3_def)
          obtain ok3 b3 fic3 where
            t3: "mi_bfield_atomic_try_xset_mask is_set (chunk2 ! field3) me3 = (ok3, b3, fic3)"
            by (metis prod_cases3)
          have at3: "chunk2 ! field3 = chunk ! field3"
            using unch2 [of field3] other1 [of field3] sf2 by (simp add: field3_def)
          have me3: "me3 = range_mask cidx n field3"
          proof (rule mask_eq_range_mask)
            fix j assume "j < (64::nat)"
            then show "bit me3 j \<longleftrightarrow> cidx \<le> 64 * field3 + j \<and> 64 * field3 + j < cidx + n"
              using mi_bfield_mask_bit [of 0 n2 j] n2 pos3 sf2 cidx si
              by (auto simp: me3_def field3_def)
          qed
          show ?thesis
          proof (cases ok3)
            case False
            have r: "ok = False"
              "chunk' = mi_bchunk_try_xsetN_restore is_set (chunk2[field3 := b3]) field3 sf field3 ms mm2 me3"
              using res n t1 ok1 n1 mid [unfolded chunk1_def] ok2 n2pos
                t3 [unfolded field3_def me3_def] False
              by (auto simp: unf field3_def me3_def)
            have "b3 = chunk2 ! field3" using try_xset_mask_cases [OF t3] False by simp
            then have same: "chunk2[field3 := b3] = chunk2" by simp
            have "field3 \<le> length chunk2" using len2 f38 by simp
            note rp = restore_props [OF this, of is_set sf field3 ms mm2 me3]
            have "chunk' = chunk"
            proof (rule nth_equalityI)
              show "length chunk' = length chunk" using rp r same len2 len by simp
            next
              fix f assume "f < length chunk'"
              then have f8: "f < 8" using rp r same len2 by simp
              consider "f = sf" | "sf < f" "f \<le> field2" | "f < sf \<or> field2 < f" by linarith
              then show "chunk' ! f = chunk ! f"
              proof cases
                case 1
                then show ?thesis using rp r same len2 f8 sf2 at_sf undo_sf by (simp add: field3_def)
              next
                case 2
                then have "mm2 = mi_bfield_all_set" using mm2 by simp
                then have "chunk' ! f = fst (snd (mi_bfield_atomic_xset_mask (\<not> is_set) (chunk2 ! f) mi_bfield_all_set))"
                  using rp r same len2 f8 2 by (simp add: field3_def)
                also have "\<dots> = chunk1 ! f" using xset_committed_undo [OF com [OF 2]] .
                finally show ?thesis using other1 [of f] 2 by simp
              next
                case 3
                then have "chunk' ! f = chunk2 ! f" using rp r same len2 f8 sf2 by (auto simp: field3_def)
                also have "\<dots> = chunk ! f"
                  using 3 unch2 [of f] other1 [of f] sf2 by auto
                finally show ?thesis .
              qed
            qed
            then show ?thesis using r len by simp
          next
            case ok3: True
            have r: "ok = True" "chunk' = chunk2[field3 := b3]"
              using res n t1 ok1 n1 mid [unfolded chunk1_def] ok2 n2pos
                t3 [unfolded field3_def me3_def] ok3
              by (auto simp: unf field3_def me3_def)
            have c3: "xset_committed is_set (chunk ! field3) (range_mask cidx n field3) b3"
              using try_xset_mask_cases [OF t3] ok3 at3 me3 by simp
            have "xset_committed is_set (chunk ! f) (range_mask cidx n f) (chunk' ! f)" if "f < 8" for f
            proof -
              consider "f \<le> field2" | "f = field3" | "field3 < f" unfolding field3_def by linarith
              then show ?thesis
              proof cases
                case 1
                then show ?thesis using com' [of f] r by (simp add: field3_def)
              next
                case 2
                then show ?thesis using c3 r len2 f38 by simp
              next
                case 3
                have "range_mask cidx n f = 0"
                  by (rule bit_eqI) (use 3 n2 pos3 in \<open>auto simp: range_mask_bit field3_def\<close>)
                moreover have "chunk' ! f = chunk ! f"
                  using 3 r unch2 [of f] other1 [of f] sf2 by (simp add: field3_def)
                ultimately show ?thesis by (simp add: xset_committed_zero)
              qed
            qed
            then show ?thesis using r len2 by simp
          qed
        qed
      qed
    qed
  qed
qed

section \<open>A concrete scenario: set bit 1000, find it, find nothing\<close>

text \<open>The bitmaps of the spec's concrete scenarios have four chunks (\<open>W = 64\<close>, \<open>B = 512\<close>,
  \<open>max_bits = 2048\<close>).  \<open>scenario_bitmap cmap acc b\<close> is such a bitmap with chunkmap \<open>cmap\<close>,
  \<open>chunk_max_accessed = acc\<close>, and all bfields zero but the last one of chunk 1, which holds
  bit 1000 of the bitmap as its bit 40.\<close>

definition scenario_bitmap :: "mi_bfield_t list \<Rightarrow> nat \<Rightarrow> mi_bfield_t \<Rightarrow> mi_bitmap_t" where
  "scenario_bitmap cmap acc b =
     \<lparr>chunk_count = 4, chunk_max_accessed = acc, chunkmap = cmap,
      chunks = [[0, 0, 0, 0, 0, 0, 0, 0], [0, 0, 0, 0, 0, 0, 0, b],
                [0, 0, 0, 0, 0, 0, 0, 0], [0, 0, 0, 0, 0, 0, 0, 0]]\<rparr>"

lemma scenario_init:
  "mi_bitmap_init bitmap 2048 False = scenario_bitmap [0, 0, 0, 0, 0, 0, 0, 0] 0 0"
proof -
  have "mi_bitmap_size 2048 = 4" by code_simp
  moreover have "mi_memzero_bitmap 4\<lparr>chunk_count := 4\<rparr> = scenario_bitmap [0, 0, 0, 0, 0, 0, 0, 0] 0 0"
    by code_simp
  ultimately show ?thesis by (simp add: mi_bitmap_init_def)
qed

lemma scenario_xset:
  "mi_bitmap_xset True (scenario_bitmap [0, 0, 0, 0, 0, 0, 0, 0] 0 0) 1000 =
     (True, scenario_bitmap [2, 0, 0, 0, 0, 0, 0, 0] 1 0x10000000000)"
  by code_simp

lemma scenario_bsr:
  "mi_bitmap_bsr (scenario_bitmap [2, 0, 0, 0, 0, 0, 0, 0] 1 0x10000000000) = Some 1000"
  by code_simp

lemma scenario_visit_found:
  "mi_bitmap_try_find_and_clear_visit mi_bchunk_try_find_and_clear_1
     (scenario_bitmap [2, 0, 0, 0, 0, 0, 0, 0] 1 0x10000000000, ()) 1 1 =
   (Some 1000, (scenario_bitmap [2, 0, 0, 0, 0, 0, 0, 0] 1 0, ()))"
  by code_simp

lemma scenario_visit_empty:
  "mi_bitmap_try_find_and_clear_visit mi_bchunk_try_find_and_clear_1
     (scenario_bitmap [2, 0, 0, 0, 0, 0, 0, 0] 1 0, ()) 1 1 =
   (None, (scenario_bitmap [0, 0, 0, 0, 0, 0, 0, 0] 1 0, ()))"
  by code_simp


lemma scenario_outer_list:
  "mi_bfield_cycle_iterate (mi_bfield_mask (mi_divide_up 4 MI_BFIELD_BITS) 0) tseq
     (1 div MI_BFIELD_BITS + 1) = [0]"
proof -
  have c: "1 div MI_BFIELD_BITS + 1 = (1 :: nat)" by code_simp
  have "mi_bfield_cycle_start tseq 1 = 0" using cycle_start_less [of 1 tseq] by simp
  moreover have "mi_bfield_iterate (mi_bfield_mask (mi_divide_up 4 MI_BFIELD_BITS) 0) 0 1 = [0]"
    by code_simp
  ultimately show ?thesis unfolding c mi_bfield_cycle_iterate_def Let_def by simp
qed

lemma scenario_inner_list: "mi_bfield_cycle_iterate 2 tseq 2 = [1]"
proof -
  have "mi_bfield_cycle_start tseq 2 < 2" using cycle_start_less [of 2 tseq] by simp
  then consider "mi_bfield_cycle_start tseq 2 = 0" | "mi_bfield_cycle_start tseq 2 = 1" by linarith
  then show ?thesis
  proof cases
    case 1
    moreover have "mi_bfield_iterate 2 0 2 = [1]" by code_simp
    ultimately show ?thesis unfolding mi_bfield_cycle_iterate_def Let_def by simp
  next
    case 2
    moreover have "mi_bfield_iterate 2 1 2 = [1]" by code_simp
    ultimately show ?thesis unfolding mi_bfield_cycle_iterate_def Let_def by simp
  qed
qed

lemma scenario_find:
  assumes v: "on_find (scenario_bitmap [2, 0, 0, 0, 0, 0, 0, 0] 1 b, ()) (0 * MI_BFIELD_BITS + 1) 1 = r"
  shows "mi_bitmap_find (scenario_bitmap [2, 0, 0, 0, 0, 0, 0, 0] 1 b, ()) tseq 1 on_find =
     (case r of (Some idx, st') \<Rightarrow> (Some idx, st') | (None, st') \<Rightarrow> (None, st'))"
proof -
  have sel: "chunk_max_accessed (scenario_bitmap [2, 0, 0, 0, 0, 0, 0, 0] 1 b) = 1"
    "mi_bitmap_chunk_count (scenario_bitmap [2, 0, 0, 0, 0, 0, 0, 0] 1 b) = 4"
    "chunkmap (scenario_bitmap [2, 0, 0, 0, 0, 0, 0, 0] 1 b) ! 0 = 2"
    by (simp_all add: scenario_bitmap_def mi_bitmap_chunk_count_def)
  have c: "mi_bitmap_find_cmap_entry_cycle 0 (1 div MI_BFIELD_BITS) (1 + 1 mod MI_BFIELD_BITS) = 2"
    by code_simp
  show ?thesis
    unfolding mi_bitmap_find_def Let_def fst_conv sel scenario_outer_list
      mi_bitmap_find_outer.simps c scenario_inner_list mi_bitmap_find_inner.simps v
    by (simp split: prod.splits option.splits)
qed

lemma scenario_find_first:
  "mi_bitmap_try_find_and_clear (scenario_bitmap [2, 0, 0, 0, 0, 0, 0, 0] 1 0x10000000000) tseq =
     (Some 1000, scenario_bitmap [2, 0, 0, 0, 0, 0, 0, 0] 1 0)"
proof -
  have "mi_bitmap_try_find_and_clear_visit mi_bchunk_try_find_and_clear_1
     (scenario_bitmap [2, 0, 0, 0, 0, 0, 0, 0] 1 0x10000000000, ()) (0 * MI_BFIELD_BITS + 1) 1 =
   (Some 1000, (scenario_bitmap [2, 0, 0, 0, 0, 0, 0, 0] 1 0, ()))"
    by code_simp
  from scenario_find [where on_find = "mi_bitmap_try_find_and_clear_visit mi_bchunk_try_find_and_clear_1", OF this]
  show ?thesis
    by (simp add: mi_bitmap_try_find_and_clear_def mi_bitmap_try_find_and_clear_generic_def)
qed

lemma scenario_find_second:
  "mi_bitmap_try_find_and_clear (scenario_bitmap [2, 0, 0, 0, 0, 0, 0, 0] 1 0) tseq =
     (None, scenario_bitmap [0, 0, 0, 0, 0, 0, 0, 0] 1 0)"
proof -
  have "mi_bitmap_try_find_and_clear_visit mi_bchunk_try_find_and_clear_1
     (scenario_bitmap [2, 0, 0, 0, 0, 0, 0, 0] 1 0, ()) (0 * MI_BFIELD_BITS + 1) 1 =
   (None, (scenario_bitmap [0, 0, 0, 0, 0, 0, 0, 0] 1 0, ()))"
    by code_simp
  from scenario_find [where on_find = "mi_bitmap_try_find_and_clear_visit mi_bchunk_try_find_and_clear_1", OF this]
  show ?thesis
    by (simp add: mi_bitmap_try_find_and_clear_def mi_bitmap_try_find_and_clear_generic_def)
qed

section \<open>The already-clear count of \<open>clear_mask\<close>\<close>

text \<open>
  Claim C3.  \<^verbatim>\<open>clear_mask(b, m, *already)\<close> is specified to store the number of bits of
  \<open>m\<close> that were already 0 in the prior value, \<open>popcount (m AND NOT old)\<close>, and to return
  true iff all bits of \<open>m\<close> were 1.  On the prior value \<open>0xFF\<close> with the mask \<open>0x0F\<close> the
  source returns true and clears the four bits, but stores
  \<open>popcount (NOT (old AND m)) = 60\<close>, where the specified count is 0.
\<close>

theorem mi_bfield_atomic_clear_mask_already_clear_wrong:
  "mi_bfield_atomic_clear_mask 0xFF 0x0F = (True, 0xF0, 60) \<and>
   mi_bfield_popcount (0x0F AND NOT 0xFF) = 0"
  by (simp add: mi_bfield_atomic_clear_mask_def mi_bfield_popcount_def mi_popcount_def
        upt_rec [of _ "numeral _"] bit_numeral_iff)

section \<open>The assertions of the cyclic iteration inside the finder\<close>

text \<open>
  Claim C10.  Every expansion of the iteration macro inside \<^verbatim>\<open>mi_bitmap_find\<close> should
  meet the macro's assertions \<open>start \<le> cycle\<close>, \<open>start < W\<close> and \<open>cycle < W\<close>.  For a bitmap
  of 128 chunks with \<open>chunk_max_accessed = 0\<close> the outer iteration visits the chunkmap
  entries 0 and 1; for entry 1, which is not the last accessed entry 0, the inner
  expansion runs with \<open>cycle = W = 64\<close>, and the assertion \<open>cycle < W\<close> is false.
\<close>

theorem mi_bitmap_find_inner_cycle_breaks_assert:
  "mi_bfield_cycle_iterate (mi_bfield_mask (mi_divide_up 128 MI_BFIELD_BITS) 0) 0
       (0 div MI_BFIELD_BITS + 1) = [0, 1] \<and>
   mi_bitmap_find_cmap_entry_cycle 1 (0 div MI_BFIELD_BITS) (1 + 0 mod MI_BFIELD_BITS) = 64 \<and>
   \<not> mi_bfield_iterate_asserts (mi_bfield_cycle_start 0 64) 64"
  by code_simp

section \<open>Run lengths outside the chunk\<close>

text \<open>
  Claim C8, as stated: each of \<^verbatim>\<open>try_xsetN\<close>, \<^verbatim>\<open>try_find_and_clearNX\<close> and
  \<^verbatim>\<open>try_find_and_clearN_\<close> rejects \<open>n = 0\<close> and \<open>n > B\<close> with the result false.  It fails for
  \<^verbatim>\<open>try_xsetN\<close>: with \<open>n = 0\<close> on the all-zero chunk the source returns true (the guard
  \<^verbatim>\<open>if (n==0) return true\<close>), before it stores through \<^verbatim>\<open>pmaybe_all_clear\<close>.
\<close>

theorem mi_bchunk_try_xsetN_zero_counterexample:
  "mi_bchunk_try_xsetN True [0, 0, 0, 0, 0, 0, 0, 0] 0 0 = (True, [0, 0, 0, 0, 0, 0, 0, 0], None)"
  by (simp add: mi_bchunk_try_xsetN_def)

text \<open>
  Claim C8, amended: \<^verbatim>\<open>try_find_and_clearNX\<close> and \<^verbatim>\<open>try_find_and_clearN_\<close> reject \<open>n = 0\<close> and
  \<open>n > B\<close> (the former every \<open>n > W\<close>): the result is false and the chunk is unchanged.
  \<^verbatim>\<open>try_xsetN\<close> with \<open>n = 0\<close> returns true and leaves the chunk unchanged.
\<close>

theorem mi_bchunk_ranged_ops_reject:
  "(n = 0 \<or> n > MI_BCHUNK_BITS \<longrightarrow>
      mi_bchunk_try_find_and_clearNX chunk n = (None, chunk) \<and>
      mi_bchunk_try_find_and_clearN' chunk n = (None, chunk)) \<and>
   (n > MI_BFIELD_BITS \<longrightarrow> mi_bchunk_try_find_and_clearNX chunk n = (None, chunk)) \<and>
   mi_bchunk_try_xsetN is_set chunk cidx 0 = (True, chunk, None)"
  by (auto simp: mi_bchunk_try_find_and_clearNX_def mi_bchunk_try_find_and_clearN'_def
        mi_bchunk_try_xsetN_def MI_BCHUNK_BITS_def MI_BFIELD_BITS_def)

theorem mi_bchunk_ranged_ops_reject_witness:
  "(513 :: nat) > MI_BCHUNK_BITS \<and> (513 :: nat) > MI_BFIELD_BITS \<and>
   mi_bchunk_try_find_and_clearNX [1, 2, 3, 4, 5, 6, 7, 8] 513 = (None, [1, 2, 3, 4, 5, 6, 7, 8]) \<and>
   mi_bchunk_try_find_and_clearN' [1, 2, 3, 4, 5, 6, 7, 8] 513 = (None, [1, 2, 3, 4, 5, 6, 7, 8]) \<and>
   mi_bchunk_try_xsetN False [1, 2, 3, 4, 5, 6, 7, 8] 3 0 = (True, [1, 2, 3, 4, 5, 6, 7, 8], None)"
  using mi_bchunk_ranged_ops_reject [of 513 "[1, 2, 3, 4, 5, 6, 7, 8]" False 3]
  by (simp add: MI_BCHUNK_BITS_def MI_BFIELD_BITS_def)

section \<open>The order of the cyclic iteration\<close>

text \<open>
  Claim C6.  The cyclic iteration over a bfield with \<open>start \<le> cycle\<close> visits exactly the set
  bits of the bfield, each once: first those in \<open>[start, cycle)\<close> in ascending order, then
  those in \<open>[0, start)\<close>, then those in \<open>[cycle, W)\<close>.  This holds for every \<open>start\<close> below
  \<open>W\<close> and every \<open>cycle\<close> up to \<open>W\<close>, so also for the start the macro
  \<^verbatim>\<open>mi_bfield_cycle_iterate\<close> computes.
\<close>

theorem mi_bfield_iterate_order:
  assumes "start \<le> cycle" and "cycle \<le> MI_BFIELD_BITS" and "start < MI_BFIELD_BITS"
  shows "mi_bfield_iterate bfield start cycle =
           filter (bit bfield) [start..<cycle] @
           filter (bit bfield) [0..<start] @
           filter (bit bfield) [cycle..<MI_BFIELD_BITS]"
proof -
  let ?cm = "mi_bfield_mask (cycle - start) start"
  have c64: "cycle \<le> 64" using assms by (simp add: MI_BFIELD_BITS_def)
  have cm: "bit ?cm j \<longleftrightarrow> start \<le> j \<and> j < cycle" for j
    using mi_bfield_mask_bit [of start "cycle - start" j] assms c64 by auto
  have "[0..<cycle] = [0..<start] @ [start..<cycle]"
    using assms(1) upt_add_eq_append [of 0 start "cycle - start"] by simp
  moreover have "[0..<64] = [0..<cycle] @ [cycle..<64]"
    using c64 upt_add_eq_append [of 0 cycle "64 - cycle"] by simp
  ultimately have split: "[0..<64] = [0..<start] @ [start..<cycle] @ [cycle..<64]"
    by simp
  have a1: "filter (bit (bfield AND ?cm)) [0..<start] = []"
    and a2: "filter (bit (bfield AND ?cm)) [start..<cycle] = filter (bit bfield) [start..<cycle]"
    and a3: "filter (bit (bfield AND ?cm)) [cycle..<64] = []"
    by (auto simp: filter_empty_conv bit_and_iff cm intro: filter_cong)
  have b1: "filter (bit (bfield AND NOT ?cm)) [0..<start] = filter (bit bfield) [0..<start]"
    and b2: "filter (bit (bfield AND NOT ?cm)) [start..<cycle] = []"
    and b3: "filter (bit (bfield AND NOT ?cm)) [cycle..<64] = filter (bit bfield) [cycle..<64]"
    using c64 assms(1) by (auto simp: filter_empty_conv bit_and_iff bit_not_iff cm possible_bit_word
          intro!: filter_cong dest: bit_imp_le_length)
  have "filter (bit (bfield AND ?cm)) [0..<64] = filter (bit bfield) [start..<cycle]"
    by (subst split) (simp add: a1 a2 a3)
  moreover have "filter (bit (bfield AND NOT ?cm)) [0..<64] =
      filter (bit bfield) [0..<start] @ filter (bit bfield) [cycle..<64]"
    by (subst split) (simp add: b1 b2 b3)
  ultimately show ?thesis
    by (simp add: iterate_two_arms Let_def MI_BFIELD_BITS_def)
qed

theorem mi_bfield_iterate_order_witness:
  "(4 :: nat) \<le> 12 \<and> (12 :: nat) \<le> MI_BFIELD_BITS \<and> (4 :: nat) < MI_BFIELD_BITS \<and>
   mi_bfield_iterate 0xF0F1 4 12 =
     filter (bit (0xF0F1 :: mi_bfield_t)) [4..<12] @
     filter (bit (0xF0F1 :: mi_bfield_t)) [0..<4] @
     filter (bit (0xF0F1 :: mi_bfield_t)) [12..<MI_BFIELD_BITS]"
proof -
  have a: "(4 :: nat) \<le> 12" by simp
  have b: "(12 :: nat) \<le> MI_BFIELD_BITS" by (simp add: MI_BFIELD_BITS_def)
  have c: "(4 :: nat) < MI_BFIELD_BITS" by (simp add: MI_BFIELD_BITS_def)
  from a b c mi_bfield_iterate_order [OF a b c, of "0xF0F1"] show ?thesis by blast
qed

lemma mi_bfield_iterate_example:
  "mi_bfield_iterate 0xF0F1 4 12 = [4, 5, 6, 7, 0, 12, 13, 14, 15]"
  by code_simp

text \<open>
  Claim C5.  With \<open>W = 64\<close>, \<open>B = 512\<close> and four chunks, starting from a freshly initialised
  bitmap: after \<^verbatim>\<open>xset(SET, 1000)\<close> bit 1 of the chunkmap is set and \<^verbatim>\<open>bsr\<close> finds index 1000;
  for every \<open>tseq\<close>, \<^verbatim>\<open>try_find_and_clear\<close> returns true with index 1000 and leaves every bit
  of every chunk clear; a further \<^verbatim>\<open>try_find_and_clear\<close>, with any \<open>tseq'\<close>, returns false.
\<close>

theorem mi_bitmap_scenario_set_find_clear:
  "(let bitmap0 = mi_bitmap_init bitmap 2048 False;
        bitmap1 = snd (mi_bitmap_xset True bitmap0 1000);
        (r2, bitmap2) = mi_bitmap_try_find_and_clear bitmap1 tseq;
        (r3, bitmap3) = mi_bitmap_try_find_and_clear bitmap2 tseq'
    in chunk_count bitmap0 = 4 \<and>
       bit (chunkmap bitmap1 ! 0) 1 \<and>
       mi_bitmap_bsr bitmap1 = Some 1000 \<and>
       r2 = Some 1000 \<and>
       chunks bitmap2 = replicate 4 (replicate MI_BCHUNK_FIELDS 0) \<and>
       r3 = None)"
proof -
  have "chunks (scenario_bitmap [2, 0, 0, 0, 0, 0, 0, 0] 1 0) = replicate 4 (replicate MI_BCHUNK_FIELDS 0)"
    by code_simp
  moreover have "chunk_count (scenario_bitmap [0, 0, 0, 0, 0, 0, 0, 0] 0 0) = 4"
    "bit (chunkmap (scenario_bitmap [2, 0, 0, 0, 0, 0, 0, 0] 1 0x10000000000) ! 0) 1"
    by (simp_all add: scenario_bitmap_def)
  ultimately show ?thesis
    unfolding Let_def scenario_init scenario_xset snd_conv scenario_find_first prod.case
      scenario_find_second scenario_bsr
    by simp
qed

text \<open>
  Claim C1.  For every chunk, start index \<open>cidx\<close> and run length \<open>n\<close> with \<open>cidx + n \<le> B\<close>: if
  \<^verbatim>\<open>try_xsetN\<close> returns false, the chunk is exactly as before the call, also where a mid or
  last field failed and the fields committed before it were rolled back; if it returns
  true, each of the \<open>n\<close> bits was in the opposite state before and is in the target state
  after, and the bits outside the run are unchanged.
\<close>

theorem mi_bchunk_try_xsetN_all_or_nothing:
  assumes "length chunk = MI_BCHUNK_FIELDS" and "cidx + n \<le> MI_BCHUNK_BITS"
  shows "case mi_bchunk_try_xsetN is_set chunk cidx n of
           (ok, chunk', maybe_all_clear) \<Rightarrow>
             length chunk' = MI_BCHUNK_FIELDS \<and>
             (\<not> ok \<longrightarrow> chunk' = chunk) \<and>
             (ok \<longrightarrow>
                (\<forall>i < MI_BCHUNK_BITS.
                   if cidx \<le> i \<and> i < cidx + n
                   then mi_bchunk_bit chunk i = (\<not> is_set) \<and> mi_bchunk_bit chunk' i = is_set
                   else mi_bchunk_bit chunk' i = mi_bchunk_bit chunk i))"
proof (cases "n = 0")
  case True
  then show ?thesis using assms by (auto simp: mi_bchunk_try_xsetN_def)
next
  case False
  obtain ok chunk' mac where res: "mi_bchunk_try_xsetN is_set chunk cidx n = (ok, chunk', mac)"
    by (metis prod_cases3)
  have len: "length chunk = 8" and rng: "cidx + n \<le> 512"
    using assms by (simp_all add: MI_BCHUNK_FIELDS_def MI_BCHUNK_BITS_def)
  from False have n: "0 < n" by simp
  note ch = try_xsetN_char [OF len n rng res]
  have bits: "if cidx \<le> i \<and> i < cidx + n
        then mi_bchunk_bit chunk i = (\<not> is_set) \<and> mi_bchunk_bit chunk' i = is_set
        else mi_bchunk_bit chunk' i = mi_bchunk_bit chunk i" if ok and i: "i < 512" for i
  proof -
    let ?f = "i div 64" and ?j = "i mod 64"
    have f: "?f < 8" using i by simp
    with ch \<open>ok\<close> have c: "xset_committed is_set (chunk ! ?f) (range_mask cidx n ?f) (chunk' ! ?f)"
      by simp
    have "bit (range_mask cidx n ?f) ?j \<longleftrightarrow> cidx \<le> i \<and> i < cidx + n"
      by (simp add: range_mask_bit)
    with xset_committed_bits [OF c, of ?j] show ?thesis
      by (auto simp: mi_bchunk_bit_def MI_BFIELD_BITS_def)
  qed
  show ?thesis
    unfolding res prod.case using ch bits
    by (simp add: MI_BCHUNK_FIELDS_def MI_BCHUNK_BITS_def)
qed

theorem mi_bchunk_try_xsetN_all_or_nothing_witness:
  "length [0, 2, 0, 0, 0, 0, 0, 0 :: mi_bfield_t] = MI_BCHUNK_FIELDS \<and> 60 + 8 \<le> MI_BCHUNK_BITS \<and>
   (case mi_bchunk_try_xsetN True [0, 2, 0, 0, 0, 0, 0, 0] 60 8 of
      (ok, chunk', maybe_all_clear) \<Rightarrow>
        length chunk' = MI_BCHUNK_FIELDS \<and>
        (\<not> ok \<longrightarrow> chunk' = [0, 2, 0, 0, 0, 0, 0, 0]) \<and>
        (ok \<longrightarrow>
           (\<forall>i < MI_BCHUNK_BITS.
              if 60 \<le> i \<and> i < 60 + 8
              then mi_bchunk_bit [0, 2, 0, 0, 0, 0, 0, 0] i = (\<not> True) \<and> mi_bchunk_bit chunk' i = True
              else mi_bchunk_bit chunk' i = mi_bchunk_bit [0, 2, 0, 0, 0, 0, 0, 0] i)))"
proof -
  have a: "length [0, 2, 0, 0, 0, 0, 0, 0 :: mi_bfield_t] = MI_BCHUNK_FIELDS"
    by (simp add: MI_BCHUNK_FIELDS_def)
  have b: "60 + 8 \<le> MI_BCHUNK_BITS" by (simp add: MI_BCHUNK_BITS_def)
  from a b mi_bchunk_try_xsetN_all_or_nothing [OF a b, of True] show ?thesis by blast
qed

lemma mi_bchunk_try_xsetN_rollback_example:
  "mi_bchunk_try_xsetN True [0, 2, 0, 0, 0, 0, 0, 0] 60 8 = (False, [0, 2, 0, 0, 0, 0, 0, 0], Some False) \<and>
   mi_bchunk_try_xsetN True [0, 0, 0, 0, 0, 0, 0, 0] 60 8 =
     (True, [0xF000000000000000, 0xF, 0, 0, 0, 0, 0, 0], Some False)"
  by code_simp

end
